theory Spec2Isabelle
  imports Main "HOL-Library.Multiset"
begin

section \<open>Go library functions used by the scan pipeline\<close>

text \<open>
  Go strings are byte sequences; they are modelled as \<open>string\<close> (a list of 8-bit
  characters).  The case and white-space functions below are the ASCII parts of Go's
  \<open>strings\<close> and \<open>unicode\<close> packages: on text that is pure ASCII they agree with the
  library, and characters outside ASCII are left untouched.
\<close>

subsection \<open>Package strings\<close>

definition is_upper :: "char \<Rightarrow> bool" where
  "is_upper c = (65 \<le> (of_char c :: nat) \<and> (of_char c :: nat) \<le> 90)"

definition to_lower_char :: "char \<Rightarrow> char" where
  "to_lower_char c = (if is_upper c then char_of ((of_char c :: nat) + 32) else c)"

definition ToLower :: "string \<Rightarrow> string" where
  "ToLower s = map to_lower_char s"

text \<open>\<open>unicode.IsSpace\<close> on ASCII: tab, line feed, vertical tab, form feed, carriage return, space.\<close>

definition is_space :: "char \<Rightarrow> bool" where
  "is_space c = ((of_char c :: nat) \<in> {9, 10, 11, 12, 13, 32})"

definition TrimSpace :: "string \<Rightarrow> string" where
  "TrimSpace s = rev (dropWhile is_space (rev (dropWhile is_space s)))"

definition Trim :: "string \<Rightarrow> string \<Rightarrow> string" where
  "Trim s cutset = rev (dropWhile (\<lambda>c. c \<in> set cutset) (rev (dropWhile (\<lambda>c. c \<in> set cutset) s)))"

fun HasPrefix :: "string \<Rightarrow> string \<Rightarrow> bool" where
  "HasPrefix s [] = True"
| "HasPrefix [] (p # ps) = False"
| "HasPrefix (c # cs) (p # ps) = (c = p \<and> HasPrefix cs ps)"

fun Index :: "string \<Rightarrow> string \<Rightarrow> nat option" where
  "Index [] sep = (if sep = [] then Some 0 else None)"
| "Index (c # cs) sep =
     (if HasPrefix (c # cs) sep then Some 0 else map_option Suc (Index cs sep))"

definition Contains :: "string \<Rightarrow> string \<Rightarrow> bool" where
  "Contains s substr = (Index s substr \<noteq> None)"

lemma Index_bound: "Index s sep = Some m \<Longrightarrow> sep \<noteq> [] \<Longrightarrow> m < length s"
proof (induction s arbitrary: m)
  case Nil
  then show ?case by simp
next
  case (Cons c cs)
  then show ?case by (auto split: if_splits)
qed

text \<open>
  \<open>strings.Split(s, sep)\<close>: cut at the first occurrence of \<open>sep\<close>, continue behind it.
  With an empty separator Go explodes the string into its characters.
\<close>

function Split :: "string \<Rightarrow> string \<Rightarrow> string list" where
  "Split s sep =
     (if sep = [] then map (\<lambda>c. [c]) s
      else case Index s sep of
             None \<Rightarrow> [s]
           | Some m \<Rightarrow> take m s # Split (drop (m + length sep) s) sep)"
  by pat_completeness auto
termination
proof (relation "measure (\<lambda>(s, sep). length s)")
  show "wf (measure (\<lambda>(s, sep). length s))" by simp
next
  fix s sep :: string and m :: nat
  assume "sep \<noteq> []" and "Index s sep = Some m"
  then have "m < length s" by (rule Index_bound [rotated])
  with \<open>sep \<noteq> []\<close>
  show "((drop (m + length sep) s, sep), (s, sep)) \<in> measure (\<lambda>(s, sep). length s)"
    by (cases sep) auto
qed

declare Split.simps [simp del]

fun Join :: "string list \<Rightarrow> string \<Rightarrow> string" where
  "Join [] sep = []"
| "Join [x] sep = x"
| "Join (x # y # ys) sep = x @ sep @ Join (y # ys) sep"

text \<open>\<open>strings.Replace(s, old, new, -1)\<close>: every non-overlapping occurrence, left to right.\<close>

definition Replace :: "string \<Rightarrow> string \<Rightarrow> string \<Rightarrow> string" where
  "Replace s old new =
     (if old = [] then new @ concat (map (\<lambda>c. c # new) s) else Join (Split s old) new)"

definition Count :: "string \<Rightarrow> string \<Rightarrow> nat" where
  "Count s sep = (if sep = [] then length s + 1 else length (Split s sep) - 1)"

subsection \<open>Package path/filepath (separator \<open>/\<close>)\<close>

definition Separator :: char where
  "Separator = CHR ''/''"

text \<open>\<open>filepath.Ext\<close>: scan back from the end to the last separator; the extension starts at the dot.\<close>

fun ext_scan :: "string \<Rightarrow> string \<Rightarrow> string" where
  "ext_scan [] suffix = []"
| "ext_scan (c # rs) suffix =
     (if c = Separator then []
      else if c = CHR ''.'' then c # suffix
      else ext_scan rs (c # suffix))"

definition Ext :: "string \<Rightarrow> string" where
  "Ext path = ext_scan (rev path) []"

definition Base :: "string \<Rightarrow> string" where
  "Base path =
     (if path = [] then ''.''
      else let p = rev (dropWhile (\<lambda>c. c = Separator) (rev path));
               e = rev (takeWhile (\<lambda>c. c \<noteq> Separator) (rev p))
           in if e = [] then [Separator] else e)"

fun clean_elems :: "bool \<Rightarrow> string list \<Rightarrow> string list \<Rightarrow> string list" where
  "clean_elems rooted stack [] = rev stack"
| "clean_elems rooted stack (e # es) =
     (if e = [] \<or> e = ''.'' then clean_elems rooted stack es
      else if e = ''..'' then
        (case stack of
           t # below \<Rightarrow>
             if t \<noteq> ''..'' then clean_elems rooted below es
             else if rooted then clean_elems rooted stack es
             else clean_elems rooted (e # stack) es
         | [] \<Rightarrow> if rooted then clean_elems rooted stack es
                 else clean_elems rooted (e # stack) es)
      else clean_elems rooted (e # stack) es)"

text \<open>
  \<open>filepath.Clean\<close>, element by element: empty and \<open>.\<close> elements disappear, \<open>..\<close>
  removes the element before it, cannot climb above the root and is kept at the front of
  a relative path; the empty result is \<open>.\<close>.
\<close>

definition Clean :: "string \<Rightarrow> string" where
  "Clean path =
     (let rooted = (path \<noteq> [] \<and> hd path = Separator);
          out = (if rooted then [Separator] else []) @
                Join (clean_elems rooted [] (Split path [Separator])) [Separator]
      in if out = [] then ''.'' else out)"

definition Dir :: "string \<Rightarrow> string" where
  "Dir path = Clean (rev (dropWhile (\<lambda>c. c \<noteq> Separator) (rev path)))"


section \<open>Data model\<close>

text \<open>
  \<open>object.FileInfo\<close> is an interface; an entry is the record of what its methods return.
  Instants (\<open>time.Time\<close>) and durations are integers counting nanoseconds, sizes and
  counters are \<open>int64\<close>: integers kept in range by \<open>int64\<close>, Go's wrap-around.
\<close>

record FileInfo =
  Key :: string
  Size :: int
  MTime :: int
  CTime :: int
  ATime :: int
  Perm :: int
  IsDir :: bool
  IsSymlink :: bool
  IsRegular :: bool
  IsSticky :: bool

definition int64 :: "int \<Rightarrow> int" where
  "int64 x = (x + 2 ^ 63) mod 2 ^ 64 - 2 ^ 63"

text \<open>Go's integer division truncates towards zero and panics on a zero divisor.\<close>

datatype panic = IntegerDivideByZero | InterfaceConversion

definition quo64 :: "int \<Rightarrow> int \<Rightarrow> panic + int" where
  "quo64 a b =
     (if b = 0 then Inl IntegerDivideByZero
      else Inr (int64 (sgn a * sgn b * (\<bar>a\<bar> div \<bar>b\<bar>))))"

section \<open>Catalog rows (db/sqlite.go)\<close>

record FileInfoData =
  fdKey :: string
  fdSize :: int
  fdExt :: string
  fdCTime :: int
  fdMTime :: int
  fdATime :: int
  fdPerm :: int
  fdIsSymlink :: bool
  fdIsDir :: bool
  fdIsRegular :: bool

definition ProcessFileInfo :: "FileInfo \<Rightarrow> FileInfoData" where
  "ProcessFileInfo fileInfo =
     (let key = Key fileInfo;
          isDir = IsDir fileInfo;
          ext = (if \<not> isDir then Ext key else [])
      in \<lparr> fdKey = key, fdSize = Size fileInfo, fdExt = ext,
           fdCTime = CTime fileInfo, fdMTime = MTime fileInfo, fdATime = ATime fileInfo,
           fdPerm = Perm fileInfo, fdIsSymlink = IsSymlink fileInfo,
           fdIsDir = isDir, fdIsRegular = IsRegular fileInfo \<rparr>)"

section \<open>Statistics aggregator (app/scan/stat.go)\<close>

record Stats =
  fileCount :: int
  dirCount :: int
  totalSize :: int
  totalSymlink :: int
  totalRegularFile :: int
  totalNameLength :: int
  maxNameLength :: int
  totalDirDepth :: int
  maxDirDepth :: int

definition NewStats :: Stats where
  "NewStats = \<lparr> fileCount = 0, dirCount = 0, totalSize = 0, totalSymlink = 0,
                totalRegularFile = 0, totalNameLength = 0, maxNameLength = 0,
                totalDirDepth = 0, maxDirDepth = 0 \<rparr>"

definition Update :: "Stats \<Rightarrow> FileInfo \<Rightarrow> Stats" where
  "Update s fileInfo =
     (let key = Key fileInfo;
          s1 =
            (if IsDir fileInfo then s\<lparr> dirCount := int64 (dirCount s + 1) \<rparr>
             else
               let name = Base key;
                   nameLength = int (length name);
                   path = Dir key;
                   depth0 = int (Count path [Separator]);
                   depth = (if path = [Separator] \<or> path = ''.'' then 0 else depth0);
                   a = s\<lparr> fileCount := int64 (fileCount s + 1),
                          totalSize := int64 (totalSize s + Size fileInfo),
                          totalNameLength := int64 (totalNameLength s + nameLength),
                          totalDirDepth := int64 (totalDirDepth s + depth) \<rparr>;
                   b = (if nameLength > maxNameLength a
                        then a\<lparr> maxNameLength := nameLength \<rparr> else a);
                   c = (if depth > maxDirDepth b then b\<lparr> maxDirDepth := depth \<rparr> else b)
               in if IsRegular fileInfo
                  then c\<lparr> totalRegularFile := int64 (totalRegularFile c + 1) \<rparr> else c)
      in if IsSymlink fileInfo
         then s1\<lparr> totalSymlink := int64 (totalSymlink s1 + 1) \<rparr> else s1)"

definition GetAvgNameLength :: "Stats \<Rightarrow> int" where
  "GetAvgNameLength s =
     (let count = fileCount s
      in if count = 0 then 0
         else case quo64 (totalNameLength s) count of Inr q \<Rightarrow> q | Inl _ \<Rightarrow> 0)"

definition GetAvgDirDepth :: "Stats \<Rightarrow> int" where
  "GetAvgDirDepth s =
     (let count = fileCount s
      in if count = 0 then 0
         else case quo64 (totalDirDepth s) count of Inr q \<Rightarrow> q | Inl _ \<Rightarrow> 0)"

text \<open>
  \<open>Stats.Print\<close> and \<open>GenerateConsoleReportSummary\<close> write lines to the console and the
  log.  The model returns the numbers they print (sizes before \<open>FormatFileSize\<close>), or the
  panic that stops them.
\<close>

record stats_report =
  rTotal :: int
  rFiles :: int
  rDirs :: int
  rTotalSize :: int
  rAverageSize :: int
  rAvgNameLength :: int
  rMaxNameLength :: int
  rAvgDirDepth :: int
  rMaxDirDepth :: int

definition Print :: "Stats \<Rightarrow> panic + stats_report" where
  "Print s =
     (let fc = fileCount s;
          dc = dirCount s;
          ts = totalSize s
      in case quo64 ts fc of
           Inl p \<Rightarrow> Inl p
         | Inr averageSizeBytes \<Rightarrow>
             Inr \<lparr> rTotal = int64 (fc + dc), rFiles = fc, rDirs = dc, rTotalSize = ts,
                   rAverageSize = averageSizeBytes,
                   rAvgNameLength = GetAvgNameLength s, rMaxNameLength = maxNameLength s,
                   rAvgDirDepth = GetAvgDirDepth s, rMaxDirDepth = maxDirDepth s \<rparr>)"

text \<open>\<open>GetUniqueExtCount\<close>: \<open>SELECT COUNT(DISTINCT ext) FROM file_entries\<close>.\<close>

definition GetUniqueExtCount :: "FileInfoData list \<Rightarrow> int" where
  "GetUniqueExtCount file_entries = int (length (remdups (map fdExt file_entries)))"

record summary_report =
  sTotalFiles :: int
  sFileCount :: int
  sDirCount :: int
  sSymlinkCount :: int
  sExtCount :: int
  sTotalSize :: int
  sAverageSize :: int
  sAvgNameLength :: int
  sMaxNameLength :: int
  sAvgDirDepth :: int
  sMaxDirDepth :: int

definition GenerateConsoleReportSummary :: "Stats \<Rightarrow> FileInfoData list \<Rightarrow> panic + summary_report" where
  "GenerateConsoleReportSummary stats file_entries =
     (let fc = fileCount stats;
          dc = dirCount stats;
          symlinkCount = totalSymlink stats;
          ts = totalSize stats
      in case quo64 ts fc of
           Inl p \<Rightarrow> Inl p
         | Inr averageSizeBytes \<Rightarrow>
             Inr \<lparr> sTotalFiles = int64 (fc + dc), sFileCount = fc, sDirCount = dc,
                   sSymlinkCount = symlinkCount,
                   sExtCount = GetUniqueExtCount file_entries,
                   sTotalSize = ts, sAverageSize = averageSizeBytes,
                   sAvgNameLength = GetAvgNameLength stats,
                   sMaxNameLength = maxNameLength stats,
                   sAvgDirDepth = GetAvgDirDepth stats,
                   sMaxDirDepth = maxDirDepth stats \<rparr>)"


section \<open>Predicate compiler (app/scan/filter.go, app/scan/utils.go)\<close>

datatype cond_value = StringValue string | SizeValue int | DurationValue int

record Condition =
  Property :: string
  Operator :: string
  Value :: cond_value

record ConditionFilter =
  conditions :: "Condition list"

datatype parse_error =
    NoOperatorFound string
  | MalformedCondition string
  | UnsupportedProperty string
  | InvalidSizeFormat string
  | InvalidUnit string
  | FloatSyntax string
  | FloatRange string
  | ParseFailed string parse_error

definition single_quote :: char where
  "single_quote = CHR 0x27"

definition double_quote :: char where
  "double_quote = CHR 0x22"

definition quoted :: "string \<Rightarrow> string" where
  "quoted s = single_quote # s @ [single_quote]"

subsection \<open>Locating the operator\<close>

definition operators :: "string list" where
  "operators = [''>='', ''<='', ''=='', ''!='', ''in'', ''like'', ''>'', ''<'']"

text \<open>The class \<open>\s\<close> of Go's regexp syntax: tab, line feed, form feed, carriage return, space.\<close>

definition re_space :: "char \<Rightarrow> bool" where
  "re_space c = ((of_char c :: nat) \<in> {9, 10, 12, 13, 32})"

definition operator_at :: "string \<Rightarrow> string option" where
  "operator_at s = find (HasPrefix s) operators"

text \<open>
  \<open>opRegex\<close> is \<open>\s*(>=|<=|==|!=|in|like|>|<)\s*\<close>.  Its leftmost match is found by
  \<open>find_operator\<close>: the first position at which one of the alternatives begins (the
  first alternative in the listed order that fits there), widened by the white space on
  both sides.  \<open>FindStringSubmatch\<close> yields the operator, and \<open>Split(condStr, 2)\<close> the
  text before the match and the text behind it.
\<close>

fun find_operator :: "string \<Rightarrow> (nat \<times> string) option" where
  "find_operator [] = None"
| "find_operator (c # cs) =
     (case operator_at (c # cs) of
        Some op \<Rightarrow> Some (0, op)
      | None \<Rightarrow> map_option (\<lambda>(j, op). (Suc j, op)) (find_operator cs))"

definition opRegex_Split2 :: "string \<Rightarrow> nat \<Rightarrow> string \<Rightarrow> string list" where
  "opRegex_Split2 s j op =
     [rev (dropWhile re_space (rev (take j s))),
      dropWhile re_space (drop (j + length op) s)]"

subsection \<open>Numbers\<close>

text \<open>
  \<open>strconv.ParseFloat\<close> is modelled on decimal literals: an optional sign, digits with
  an optional fraction (at least one digit), and an optional exponent \<open>e\<close> or \<open>E\<close>
  with its own sign and at least one digit.  The value is kept exactly, as
  \<open>mantissa / 10 ^ scale\<close> with an integer \<open>scale\<close>.  A value that \<open>float64\<close> rounds
  to infinity is the range error of the library: that is every value from
  \<open>2 ^ 1024 - 2 ^ 970\<close> on, half a unit in the last place above the largest number.
  Three things are outside the model.  The spellings with a hexadecimal mantissa, with
  underscores, and \<open>inf\<close> and \<open>nan\<close> are answered like a syntax error, although Go
  accepts them.  The rounding of \<open>float64\<close> is not represented, so the model is exact
  where the float arithmetic is.  And a product beyond the range of \<open>int64\<close> is
  wrapped, where Go leaves the conversion to the platform.
\<close>

record decimal =
  negative :: bool
  mantissa :: nat
  scale :: int

datatype float_error = ErrSyntax | ErrRange

definition is_digit :: "char \<Rightarrow> bool" where
  "is_digit c = (48 \<le> (of_char c :: nat) \<and> (of_char c :: nat) \<le> 57)"

definition digits_value :: "string \<Rightarrow> nat" where
  "digits_value ds = foldl (\<lambda>acc c. 10 * acc + ((of_char c :: nat) - 48)) 0 ds"

definition parse_exponent :: "string \<Rightarrow> int option" where
  "parse_exponent s =
     (case s of
        [] \<Rightarrow> Some 0
      | c # r \<Rightarrow>
          if c = CHR ''e'' \<or> c = CHR ''E'' then
            (let neg = (r \<noteq> [] \<and> hd r = CHR ''-'');
                 ds = (if r \<noteq> [] \<and> (hd r = CHR ''-'' \<or> hd r = CHR ''+'') then tl r else r)
             in if ds \<noteq> [] \<and> list_all is_digit ds
                then Some (if neg then - int (digits_value ds) else int (digits_value ds))
                else None)
          else None)"

definition parse_unsigned :: "string \<Rightarrow> (nat \<times> int) option" where
  "parse_unsigned s =
     (let ip = takeWhile is_digit s;
          rest = dropWhile is_digit s;
          dot = (rest \<noteq> [] \<and> hd rest = CHR ''.'');
          fp = (if dot then takeWhile is_digit (tl rest) else []);
          tail = (if dot then dropWhile is_digit (tl rest) else rest)
      in if ip = [] \<and> fp = [] then None
         else case parse_exponent tail of
                None \<Rightarrow> None
              | Some e \<Rightarrow> Some (digits_value (ip @ fp), int (length fp) - e))"

definition float64_overflow :: int where
  "float64_overflow = 2 ^ 1024 - 2 ^ 970"

definition rounds_to_infinity :: "nat \<Rightarrow> int \<Rightarrow> bool" where
  "rounds_to_infinity m k =
     (if k \<ge> 0 then int m \<ge> float64_overflow * 10 ^ nat k
      else int m * 10 ^ nat (- k) \<ge> float64_overflow)"

definition ParseFloat :: "string \<Rightarrow> float_error + decimal" where
  "ParseFloat s =
     (let neg = (s \<noteq> [] \<and> hd s = CHR ''-'');
          body = (if s \<noteq> [] \<and> (hd s = CHR ''-'' \<or> hd s = CHR ''+'') then tl s else s)
      in case parse_unsigned body of
           None \<Rightarrow> Inl ErrSyntax
         | Some (m, k) \<Rightarrow>
             if rounds_to_infinity m k then Inl ErrRange
             else Inr \<lparr> negative = neg, mantissa = m, scale = k \<rparr>)"

text \<open>The conversion \<open>int64(x * float64(m))\<close>: the product, truncated towards zero.\<close>

definition scaled_int64 :: "decimal \<Rightarrow> int \<Rightarrow> int" where
  "scaled_int64 x m =
     (let q = (if scale x \<ge> 0 then (int (mantissa x) * \<bar>m\<bar>) div 10 ^ nat (scale x)
               else int (mantissa x) * \<bar>m\<bar> * 10 ^ nat (- scale x));
          v = (if negative x then - q else q)
      in int64 (if m < 0 then - v else v))"

definition size_unit :: "string \<Rightarrow> int" where
  "size_unit u =
     (if u = ''k'' then 2 ^ 10 else if u = ''m'' then 2 ^ 20
      else if u = ''g'' then 2 ^ 30 else if u = ''t'' then 2 ^ 40 else 0)"

text \<open>The regular expression of \<open>parseSize\<close> is \<open>^([0-9.]+)([kmgKMGtT]?)$\<close>.\<close>

definition size_regex :: "string \<Rightarrow> (string \<times> string) option" where
  "size_regex s =
     (let (num, unit) =
            (if s \<noteq> [] \<and> last s \<in> set ''kmgKMGtT'' then (butlast s, [last s]) else (s, []))
      in if num \<noteq> [] \<and> list_all (\<lambda>c. is_digit c \<or> c = CHR ''.'') num
         then Some (num, unit) else None)"

definition parseSize :: "string \<Rightarrow> parse_error + int" where
  "parseSize sizeStr0 =
     (let sizeStr = TrimSpace sizeStr0
      in case size_regex sizeStr of
           None \<Rightarrow> Inl (InvalidSizeFormat sizeStr)
         | Some (numStr, unitStr) \<Rightarrow>
             (case ParseFloat numStr of
                Inl ErrSyntax \<Rightarrow> Inl (FloatSyntax numStr)
              | Inl ErrRange \<Rightarrow> Inl (FloatRange numStr)
              | Inr num \<Rightarrow>
                  let unit = ToLower unitStr;
                      multiplier = (if unit \<noteq> [] then size_unit unit else 1)
                  in if unit \<noteq> [] \<and> multiplier = 0 then Inl (InvalidUnit unit)
                     else Inr (scaled_int64 num multiplier)))"

definition Hour :: int where
  "Hour = 3600 * 1000000000"

definition parseDuration :: "string \<Rightarrow> parse_error + int" where
  "parseDuration durStr0 =
     (let durStr = TrimSpace durStr0
      in case ParseFloat durStr of
           Inl ErrSyntax \<Rightarrow> Inl (FloatSyntax durStr)
         | Inl ErrRange \<Rightarrow> Inl (FloatRange durStr)
         | Inr hours \<Rightarrow> Inr (scaled_int64 hours Hour))"

subsection \<open>Clauses and filters\<close>

definition parseCondition :: "string \<Rightarrow> parse_error + Condition" where
  "parseCondition condStr =
     (case find_operator condStr of
        None \<Rightarrow> Inl (NoOperatorFound condStr)
      | Some (j, operator) \<Rightarrow>
          let parts = opRegex_Split2 condStr j operator
          in if length parts \<noteq> 2 then Inl (MalformedCondition condStr)
             else
               let property = TrimSpace (parts ! 0);
                   valueStr = TrimSpace (parts ! 1);
                   p = ToLower property;
                   mk = (\<lambda>v. \<lparr> Property = p, Operator = ToLower operator, Value = v \<rparr>)
               in if p = ''name'' \<or> p = ''type'' \<or> p = ''path''
                  then Inr (mk (StringValue (Trim valueStr [single_quote, double_quote])))
                  else if p = ''size''
                  then (case parseSize valueStr of
                          Inl e \<Rightarrow> Inl e | Inr n \<Rightarrow> Inr (mk (SizeValue n)))
                  else if p = ''modified''
                  then (case parseDuration valueStr of
                          Inl e \<Rightarrow> Inl e | Inr d \<Rightarrow> Inr (mk (DurationValue d)))
                  else Inl (UnsupportedProperty property))"

fun compile_conditions :: "Condition list \<Rightarrow> string list \<Rightarrow> parse_error + ConditionFilter" where
  "compile_conditions acc [] = Inr \<lparr> conditions = acc \<rparr>"
| "compile_conditions acc (condStr # rest) =
     (case parseCondition condStr of
        Inl err \<Rightarrow> Inl (ParseFailed condStr err)
      | Inr cond \<Rightarrow> compile_conditions (acc @ [cond]) rest)"

definition NewConditionFilter :: "string list \<Rightarrow> parse_error + ConditionFilter" where
  "NewConditionFilter conds = compile_conditions [] conds"

definition ParseConditions :: "string \<Rightarrow> string list" where
  "ParseConditions input =
     filter (\<lambda>trimmed. trimmed \<noteq> []) (map TrimSpace (Split (ToLower input) ''and''))"

section \<open>Predicate evaluator (app/scan/filter.go)\<close>

subsection \<open>Go regular expressions, as far as \<open>like\<close> produces them\<close>

text \<open>
  \<open>regexp.MatchString\<close> belongs to Go's library.  The model covers the patterns
  \<open>^body$\<close> whose body is a sequence of single characters, each an ordinary character
  or \<open>.\<close> (any character but a line feed), and each optionally repeated by \<open>*\<close>,
  \<open>+\<close> or \<open>?\<close>, greedy or lazy (a further \<open>?\<close>, which does not change what
  matches).  A repetition operator directly behind another one is the compile error
  \<open>invalid nested repetition operator\<close>.  A character is ordinary unless the syntax
  gives it a meaning, which it does for \<open>( ) | ^ $ [ { * + ?\<close> and the backslash.  For
  every other pattern (groups, alternatives, classes, counted repetition, escapes,
  anchors inside the body, a repetition of the leading \<open>^\<close>) the model answers
  \<open>Inl NotModelled\<close>; Go compiles most of them, and nothing below is claimed about them.
\<close>

datatype re_atom = ReChar char | ReAny

datatype re_count = ExactlyOne | ZeroOrMore | OneOrMore | ZeroOrOne

datatype regexp_error = NotModelled | InvalidRepeat

definition re_repeat :: "char \<Rightarrow> re_count option" where
  "re_repeat c =
     (if c = CHR ''*'' then Some ZeroOrMore
      else if c = CHR ''+'' then Some OneOrMore
      else if c = CHR ''?'' then Some ZeroOrOne
      else None)"

definition re_special :: "char \<Rightarrow> bool" where
  "re_special c = (c \<in> set ''()|^$[{'' \<or> c = CHR 0x5C)"

definition drop_lazy :: "string \<Rightarrow> string" where
  "drop_lazy s = (case s of [] \<Rightarrow> [] | c # cs \<Rightarrow> if c = CHR ''?'' then cs else s)"

lemma length_drop_lazy: "length (drop_lazy s) \<le> length s"
  by (simp add: drop_lazy_def split: list.splits)

text \<open>
  The body, read from the left; \<open>after_repeat\<close> says that the item just read carries
  a repetition operator.
\<close>

function re_parse :: "bool \<Rightarrow> string \<Rightarrow> regexp_error + (re_atom \<times> re_count) list" where
  "re_parse after_repeat [] = Inr []"
| "re_parse after_repeat (c # cs) =
     (if re_repeat c \<noteq> None then Inl (if after_repeat then InvalidRepeat else NotModelled)
      else if re_special c then Inl NotModelled
      else
        let atom = (if c = CHR ''.'' then ReAny else ReChar c)
        in case (case cs of [] \<Rightarrow> None | q # rest \<Rightarrow> re_repeat q) of
             None \<Rightarrow>
               (case re_parse False cs of
                  Inl e \<Rightarrow> Inl e
                | Inr items \<Rightarrow> Inr ((atom, ExactlyOne) # items))
           | Some n \<Rightarrow>
               (case re_parse True (drop_lazy (tl cs)) of
                  Inl e \<Rightarrow> Inl e
                | Inr items \<Rightarrow> Inr ((atom, n) # items)))"
  by pat_completeness auto
termination
proof (relation "measure (\<lambda>(r, s). length s)")
  show "wf (measure (\<lambda>(r, s). length s))" by simp
next
  fix after_repeat :: bool and c :: char and cs :: string
  show "((False, cs), (after_repeat, c # cs)) \<in> measure (\<lambda>(r, s). length s)"
    by simp
next
  fix after_repeat :: bool and c :: char and cs :: string
  have "length (drop_lazy (tl cs)) \<le> length (tl cs)"
    by (rule length_drop_lazy)
  then show "((True, drop_lazy (tl cs)), (after_repeat, c # cs)) \<in> measure (\<lambda>(r, s). length s)"
    by simp
qed

definition line_feed :: char where
  "line_feed = CHR 0x0A"

definition re_accepts :: "re_atom \<Rightarrow> char \<Rightarrow> bool" where
  "re_accepts a x = (case a of ReChar c \<Rightarrow> x = c | ReAny \<Rightarrow> x \<noteq> line_feed)"

fun re_match :: "(re_atom \<times> re_count) list \<Rightarrow> string \<Rightarrow> bool" where
  "re_match [] s = (s = [])"
| "re_match ((a, ExactlyOne) # r) s =
     (case s of [] \<Rightarrow> False | x # xs \<Rightarrow> re_accepts a x \<and> re_match r xs)"
| "re_match ((a, ZeroOrOne) # r) s =
     (re_match r s \<or> (case s of [] \<Rightarrow> False | x # xs \<Rightarrow> re_accepts a x \<and> re_match r xs))"
| "re_match ((a, ZeroOrMore) # r) s =
     (re_match r s \<or>
      (case s of [] \<Rightarrow> False
       | x # xs \<Rightarrow> re_accepts a x \<and> re_match ((a, ZeroOrMore) # r) xs))"
| "re_match ((a, OneOrMore) # r) s =
     (case s of [] \<Rightarrow> False
      | x # xs \<Rightarrow> re_accepts a x \<and> re_match ((a, ZeroOrMore) # r) xs)"

definition regexp_MatchString :: "string \<Rightarrow> string \<Rightarrow> regexp_error + bool" where
  "regexp_MatchString pattern s =
     (if 2 \<le> length pattern \<and> hd pattern = CHR ''^'' \<and> last pattern = CHR ''$''
      then (case re_parse False (butlast (tl pattern)) of
              Inl e \<Rightarrow> Inl e
            | Inr items \<Rightarrow> Inr (re_match items s))
      else Inl NotModelled)"

subsection \<open>Matching\<close>

definition matchString :: "string \<Rightarrow> string \<Rightarrow> string \<Rightarrow> bool" where
  "matchString v operator target =
     (if operator = ''=='' then v = target
      else if operator = ''!='' then v \<noteq> target
      else if operator = ''in'' then Contains (ToLower v) (ToLower target)
      else if operator = ''like'' then
        (let regexPattern1 = Replace target ''%'' ''.*'';
             regexPattern2 = Replace regexPattern1 ''_'' ''.'';
             regexPattern = ''^'' @ regexPattern2 @ ''$''
         in case regexp_MatchString regexPattern v of
              Inl err \<Rightarrow> False
            | Inr matched \<Rightarrow> matched)
      else False)"

definition matchNumber :: "int \<Rightarrow> string \<Rightarrow> int \<Rightarrow> bool" where
  "matchNumber v operator target =
     (if operator = ''=='' then v = target
      else if operator = ''!='' then v \<noteq> target
      else if operator = ''>'' then v > target
      else if operator = ''<'' then v < target
      else if operator = ''>='' then v \<ge> target
      else if operator = ''<='' then v \<le> target
      else False)"

text \<open>\<open>After\<close> is \<open>>\<close> and \<open>Before\<close> is \<open><\<close> on instants.\<close>

definition matchTime :: "int \<Rightarrow> string \<Rightarrow> int \<Rightarrow> bool" where
  "matchTime v operator target =
     (if operator = ''>'' then v > target
      else if operator = ''<'' then v < target
      else if operator = ''>='' then \<not> v < target
      else if operator = ''<='' then \<not> v > target
      else if operator = ''=='' then v = target
      else if operator = ''!='' then \<not> v = target
      else False)"

text \<open>
  \<open>matchCondition\<close> reads the clock itself (\<open>time.Now()\<close>); the reading is the argument
  \<open>now\<close>.  A type assertion \<open>cond.Value.(T)\<close> on a value of another type panics.
\<close>

definition matchCondition :: "int \<Rightarrow> FileInfo \<Rightarrow> Condition \<Rightarrow> panic + bool" where
  "matchCondition now fileInfo cond =
     (if Property cond = ''name'' then
        (case Value cond of
           StringValue target \<Rightarrow> Inr (matchString (Base (Key fileInfo)) (Operator cond) target)
         | _ \<Rightarrow> Inl InterfaceConversion)
      else if Property cond = ''path'' then
        (case Value cond of
           StringValue target \<Rightarrow> Inr (matchString (Key fileInfo) (Operator cond) target)
         | _ \<Rightarrow> Inl InterfaceConversion)
      else if Property cond = ''size'' then
        (case Value cond of
           SizeValue target \<Rightarrow> Inr (matchNumber (Size fileInfo) (Operator cond) target)
         | _ \<Rightarrow> Inl InterfaceConversion)
      else if Property cond = ''modified'' then
        (case Value cond of
           DurationValue duration \<Rightarrow>
             Inr (matchTime (MTime fileInfo) (Operator cond) (now + int64 (- duration)))
         | _ \<Rightarrow> Inl InterfaceConversion)
      else if Property cond = ''type'' then
        (case Value cond of
           StringValue target \<Rightarrow>
             Inr (matchString (if IsDir fileInfo then ''dir'' else ''file'') (Operator cond) target)
         | _ \<Rightarrow> Inl InterfaceConversion)
      else Inr False)"

fun satisfied_loop :: "int \<Rightarrow> FileInfo \<Rightarrow> Condition list \<Rightarrow> panic + bool" where
  "satisfied_loop now fileInfo [] = Inr True"
| "satisfied_loop now fileInfo (cond # rest) =
     (case matchCondition now fileInfo cond of
        Inl p \<Rightarrow> Inl p
      | Inr ok \<Rightarrow> if \<not> ok then Inr False else satisfied_loop now fileInfo rest)"

definition IsSatisfied :: "ConditionFilter \<Rightarrow> int \<Rightarrow> FileInfo \<Rightarrow> panic + bool" where
  "IsSatisfied f now fileInfo = satisfied_loop now fileInfo (conditions f)"


section \<open>Concurrent walker (ListAll)\<close>

text \<open>
  The walker sees the storage through \<open>Storage.List\<close> alone.  What it can reach is a
  finite tree: a node is an entry together with the answer of \<open>List\<close> on its key, which
  is an error (\<open>list_fails\<close>) or the sequence of its children.  The root node stands for
  the directory \<open>/\<close>; its own entry is never looked at.
\<close>

datatype tree = Node (entry: FileInfo) (list_fails: bool) (children: "tree list")

datatype list_error = StorageListFailed | Panicked panic

text \<open>
  The admission test inside \<open>list\<close>: \<open>matchOk\<close> and \<open>excludeOk\<close>, each with Go's
  short-circuit evaluation, so that an empty filter is never evaluated.
\<close>

definition admit :: "ConditionFilter \<Rightarrow> ConditionFilter \<Rightarrow> int \<Rightarrow> FileInfo \<Rightarrow> panic + bool" where
  "admit matchConditions excludeConditions now obj =
     (case (if length (conditions matchConditions) = 0 then Inr True
            else IsSatisfied matchConditions now obj) of
        Inl p \<Rightarrow> Inl p
      | Inr matchOk \<Rightarrow>
          (case (if length (conditions excludeConditions) > 0
                 then IsSatisfied excludeConditions now obj else Inr False) of
             Inl p \<Rightarrow> Inl p
           | Inr excludeOk \<Rightarrow> Inr (matchOk \<and> \<not> excludeOk)))"

text \<open>
  The loop over the listing of one directory: what is sent to \<open>results\<close>, and the
  sub-directories collected for the directory queue, each with \<open>currentDepth + 1\<close>.
\<close>

fun list_loop ::
  "ConditionFilter \<Rightarrow> ConditionFilter \<Rightarrow> int \<Rightarrow> int \<Rightarrow> tree list
     \<Rightarrow> panic + (FileInfo list \<times> (tree \<times> int) list)" where
  "list_loop M X now currentDepth [] = Inr ([], [])"
| "list_loop M X now currentDepth (obj # rest) =
     (case admit M X now (entry obj) of
        Inl p \<Rightarrow> Inl p
      | Inr ok \<Rightarrow>
          (case list_loop M X now currentDepth rest of
             Inl p \<Rightarrow> Inl p
           | Inr (results, subdirs) \<Rightarrow>
               Inr ((if ok then [entry obj] else []) @ results,
                    (if IsDir (entry obj) then [(obj, currentDepth + 1)] else []) @ subdirs)))"

definition list_dir ::
  "int \<Rightarrow> ConditionFilter \<Rightarrow> ConditionFilter \<Rightarrow> int \<Rightarrow> tree \<Rightarrow> int
     \<Rightarrow> list_error + (FileInfo list \<times> (tree \<times> int) list)" where
  "list_dir depth M X now dir currentDepth =
     (if depth > 0 \<and> currentDepth > depth then Inr ([], [])
      else if list_fails dir then Inl StorageListFailed
      else case list_loop M X now currentDepth (children dir) of
             Inl p \<Rightarrow> Inl (Panicked p)
           | Inr r \<Rightarrow> Inr r)"

fun tree_size :: "tree \<Rightarrow> nat" where
  "tree_size (Node e f kids) = Suc (sum_list (map tree_size kids))"

definition queue_size :: "(tree \<times> int) list \<Rightarrow> nat" where
  "queue_size q = sum_list (map (\<lambda>(t, d). tree_size t) q)"

lemma list_loop_subdirs:
  "list_loop M X now d kids = Inr (res, subs) \<Longrightarrow>
   queue_size subs \<le> sum_list (map tree_size kids)"
proof (induction kids arbitrary: res subs)
  case Nil
  then show ?case by (simp add: queue_size_def)
next
  case (Cons k kids)
  then show ?case
    by (auto simp: queue_size_def split: sum.splits if_splits)
qed

lemma list_dir_subdirs:
  "list_dir depth M X now dir d = Inr (res, subs) \<Longrightarrow> queue_size subs < tree_size dir"
proof (cases dir)
  case (Node e f kids)
  assume "list_dir depth M X now dir d = Inr (res, subs)"
  with Node show ?thesis
    by (auto simp: list_dir_def queue_size_def split: if_splits sum.splits
             dest!: list_loop_subdirs)
qed

text \<open>
  The workers take directories from the queue \<open>dirs\<close> until it is closed, which happens
  when the count of pending directories returns to zero.  The model runs one worker on a
  first-in first-out queue; with several workers the same directories are listed in
  another order.  A failed listing is logged and skipped; a panic ends the program.
\<close>

function walk ::
  "int \<Rightarrow> ConditionFilter \<Rightarrow> ConditionFilter \<Rightarrow> int \<Rightarrow> (tree \<times> int) list
     \<Rightarrow> panic + FileInfo list" where
  "walk depth M X now [] = Inr []"
| "walk depth M X now ((dir, currentDepth) # queue) =
     (case list_dir depth M X now dir currentDepth of
        Inl StorageListFailed \<Rightarrow> walk depth M X now queue
      | Inl (Panicked p) \<Rightarrow> Inl p
      | Inr (results, subdirs) \<Rightarrow>
          (case walk depth M X now (queue @ subdirs) of
             Inl p \<Rightarrow> Inl p
           | Inr later \<Rightarrow> Inr (results @ later)))"
  by pat_completeness auto
termination
proof (relation "measure (\<lambda>(depth, M, X, now, q). queue_size q)")
  show "wf (measure (\<lambda>(depth, M, X, now, q). queue_size q))" by simp
next
  fix depth :: int and M X :: ConditionFilter and now :: int
    and dir :: tree and currentDepth :: int and queue :: "(tree \<times> int) list"
  show "((depth, M, X, now, queue), (depth, M, X, now, (dir, currentDepth) # queue))
          \<in> measure (\<lambda>(depth, M, X, now, q). queue_size q)"
    by (cases dir) (simp add: queue_size_def)
next
  fix depth :: int and M X :: ConditionFilter and now :: int
    and dir :: tree and currentDepth :: int and queue :: "(tree \<times> int) list"
    and r :: "FileInfo list \<times> (tree \<times> int) list"
    and results :: "FileInfo list" and subdirs :: "(tree \<times> int) list"
  assume "list_dir depth M X now dir currentDepth = Inr r" and "(results, subdirs) = r"
  then have "queue_size subdirs < tree_size dir"
    by (auto dest: list_dir_subdirs)
  then show "((depth, M, X, now, queue @ subdirs), (depth, M, X, now, (dir, currentDepth) # queue))
          \<in> measure (\<lambda>(depth, M, X, now, q). queue_size q)"
    by (simp add: queue_size_def)
qed

text \<open>
  \<open>ListAll\<close> starts \<open>concurrency\<close> workers and seeds the queue with the root at depth
  1.  Without a worker nobody takes the root, the wait group is empty, and the result
  stream is closed at once.
\<close>

definition ListAll ::
  "tree \<Rightarrow> int \<Rightarrow> int \<Rightarrow> ConditionFilter \<Rightarrow> ConditionFilter \<Rightarrow> int \<Rightarrow> panic + FileInfo list" where
  "ListAll storage concurrency depth matchConditions excludeConditions now =
     (if concurrency \<le> 0 then Inr []
      else walk depth matchConditions excludeConditions now [(storage, 1)])"

subsection \<open>The content of a tree, level by level\<close>

text \<open>
  Every entry below a node with its depth, a child of the node having depth \<open>d\<close>;
  only directories have entries below them.
\<close>

fun entries_below :: "int \<Rightarrow> tree \<Rightarrow> (int \<times> FileInfo) list" where
  "entries_below d (Node e f kids) =
     concat (map (\<lambda>k. (d, entry k) # (if IsDir (entry k) then entries_below (d + 1) k else []))
               kids)"

fun no_list_errors :: "tree \<Rightarrow> bool" where
  "no_list_errors (Node e f kids) = (\<not> f \<and> list_all no_list_errors kids)"

section \<open>Incremental diff engine\<close>

subsection \<open>Catalog (db/sqlite.go)\<close>

text \<open>
  A table is the list of its rows.  The catalog is taken to be available: its
  statements execute.  \<open>SaveEntries\<close> appends one row per entry; the two queries are the
  anti-join and the join of the temporary table with \<open>file_entries\<close> on \<open>path\<close>.
\<close>

definition SaveEntries :: "FileInfo list \<Rightarrow> FileInfoData list \<Rightarrow> FileInfoData list" where
  "SaveEntries fileInfos table =
     (if length fileInfos = 0 then table else table @ map ProcessFileInfo fileInfos)"

definition QueryExactNewFiles :: "FileInfoData list \<Rightarrow> FileInfoData list \<Rightarrow> FileInfoData list" where
  "QueryExactNewFiles temp file_entries =
     filter (\<lambda>t. \<not> list_ex (\<lambda>f. fdKey t = fdKey f) file_entries) temp"

definition QueryChangedFiles :: "FileInfoData list \<Rightarrow> FileInfoData list \<Rightarrow> FileInfoData list" where
  "QueryChangedFiles temp file_entries =
     concat (map (\<lambda>t. map (\<lambda>f. t)
                        (filter (\<lambda>f. fdKey t = fdKey f \<and>
                                      (fdCTime t \<noteq> fdCTime f \<or> fdMTime t \<noteq> fdMTime f))
                                file_entries))
                 temp)"

subsection \<open>Bloom filter\<close>

text \<open>
  The bloom filter of the library \<open>bits-and-blooms\<close>: \<open>m\<close> bits and a family of hash
  functions, both fixed by \<open>NewWithEstimates\<close>.  They are parameters here.  Adding a
  string sets the bits its hashes select, testing it asks for all of them.
\<close>

record bloom_config =
  bloom_bits :: nat
  bloom_hashes :: "(string \<Rightarrow> nat) list"

definition locations :: "bloom_config \<Rightarrow> string \<Rightarrow> nat list" where
  "locations cfg s = map (\<lambda>h. h s mod bloom_bits cfg) (bloom_hashes cfg)"

definition AddString :: "bloom_config \<Rightarrow> nat set \<Rightarrow> string \<Rightarrow> nat set" where
  "AddString cfg bitset s = bitset \<union> set (locations cfg s)"

definition TestString :: "bloom_config \<Rightarrow> nat set \<Rightarrow> string \<Rightarrow> bool" where
  "TestString cfg bitset s = list_all (\<lambda>l. l \<in> bitset) (locations cfg s)"

subsection \<open>The two stages\<close>

definition candidateChan_capacity :: nat where
  "candidateChan_capacity = 100000"

text \<open>
  \<open>bloomPreFilter\<close> warms the filter with the paths of \<open>file_entries\<close> and sorts the
  scanned entries into the confirmed new ones and the candidates.  The new ones are
  collected by a second goroutine while the first one runs.  The candidates go to the
  buffered channel \<open>candidateChan\<close>, which nobody reads before \<open>bloomPreFilter\<close> has
  returned, and it returns only after the sorting goroutine is done: with more
  candidates than the buffer holds, the send blocks for ever.  \<open>None\<close> is that outcome.
\<close>

definition bloomPreFilter ::
  "bloom_config \<Rightarrow> FileInfo list \<Rightarrow> FileInfoData list \<Rightarrow> (FileInfo list \<times> FileInfo list) option" where
  "bloomPreFilter cfg scanned file_entries =
     (let bitset = foldl (AddString cfg) {} (map fdKey file_entries);
          newFiles = filter (\<lambda>item. \<not> TestString cfg bitset (Key item)) scanned;
          candidates = filter (\<lambda>item. TestString cfg bitset (Key item)) scanned
      in if length candidates > candidateChan_capacity then None
         else Some (newFiles, candidates))"

fun load_loop ::
  "int \<Rightarrow> FileInfo list \<Rightarrow> FileInfoData list \<Rightarrow> FileInfo list \<Rightarrow> FileInfoData list" where
  "load_loop batchSize buffer table [] =
     (if length buffer > 0 then SaveEntries buffer table else table)"
| "load_loop batchSize buffer table (fileInfo # rest) =
     (let buffer' = buffer @ [fileInfo]
      in if int (length buffer') \<ge> batchSize
         then load_loop batchSize [] (SaveEntries buffer' table) rest
         else load_loop batchSize buffer' table rest)"

definition loadCandidatesToTemp ::
  "FileInfo list \<Rightarrow> FileInfoData list \<Rightarrow> int \<Rightarrow> FileInfoData list" where
  "loadCandidatesToTemp candidates table batchSize = load_loop batchSize [] table candidates"

text \<open>
  The engine: prefilter, load the candidates into the fresh temporary table, run the
  two queries, and hand out the new and the changed rows.
\<close>

definition ProcessFilesForIncrementalScan ::
  "int \<Rightarrow> bloom_config \<Rightarrow> FileInfo list \<Rightarrow> FileInfoData list
     \<Rightarrow> (FileInfoData list \<times> FileInfoData list) option" where
  "ProcessFilesForIncrementalScan DBBatchSize cfg scanned file_entries =
     (case bloomPreFilter cfg scanned file_entries of
        None \<Rightarrow> None
      | Some (bloomNewFiles, candidates) \<Rightarrow>
          let temp = loadCandidatesToTemp candidates [] DBBatchSize;
              exactNewFiles = QueryExactNewFiles temp file_entries;
              changedFiles = QueryChangedFiles temp file_entries
          in Some (map ProcessFileInfo bloomNewFiles @ exactNewFiles, changedFiles))"

section \<open>Scenarios\<close>

definition regular_file :: "string \<Rightarrow> int \<Rightarrow> int \<Rightarrow> FileInfo" where
  "regular_file key sz t =
     \<lparr> Key = key, Size = sz, MTime = t, CTime = t, ATime = t, Perm = 420,
       IsDir = False, IsSymlink = False, IsRegular = True, IsSticky = False \<rparr>"

definition directory :: "string \<Rightarrow> int \<Rightarrow> FileInfo" where
  "directory key t =
     \<lparr> Key = key, Size = 0, MTime = t, CTime = t, ATime = t, Perm = 493,
       IsDir = True, IsSymlink = False, IsRegular = False, IsSticky = False \<rparr>"

definition file_node :: "string \<Rightarrow> int \<Rightarrow> tree" where
  "file_node key sz = Node (regular_file key sz 0) False []"

definition dir_node :: "string \<Rightarrow> tree list \<Rightarrow> tree" where
  "dir_node key kids = Node (directory key 0) False kids"

text \<open>The tree \<open>/a/f1\<close> (100 B), \<open>/a/f2\<close> (2 KiB), \<open>/b/g1\<close> (5 MiB), \<open>/b/c/h\<close> (10 B).\<close>

definition scenario_tree :: tree where
  "scenario_tree =
     dir_node ''/''
       [dir_node ''/a'' [file_node ''/a/f1'' 100, file_node ''/a/f2'' 2048],
        dir_node ''/b'' [file_node ''/b/g1'' 5242880,
                         dir_node ''/b/c'' [file_node ''/b/c/h'' 10]]]"

definition no_filter :: ConditionFilter where
  "no_filter = \<lparr> conditions = [] \<rparr>"

text \<open>The statistics tap of the full scan: \<open>stats.Update\<close> on every entry of the stream.\<close>

definition scan_stats :: "FileInfo list \<Rightarrow> Stats" where
  "scan_stats entries = foldl Update NewStats entries"

section \<open>Notions used in the statements\<close>

text \<open>
  The reading of \<open>like\<close> in the specification: \<open>%\<close> stands for any sequence of
  characters, \<open>_\<close> for exactly one, every other character of the pattern for itself,
  and the whole value has to match.
\<close>

fun sql_like :: "string \<Rightarrow> string \<Rightarrow> bool" where
  "sql_like [] s = (s = [])"
| "sql_like (p # ps) s =
     (if p = CHR ''%'' then
        (sql_like ps s \<or> (case s of [] \<Rightarrow> False | x # xs \<Rightarrow> sql_like (p # ps) xs))
      else if p = CHR ''_'' then (case s of [] \<Rightarrow> False | x # xs \<Rightarrow> sql_like ps xs)
      else (case s of [] \<Rightarrow> False | x # xs \<Rightarrow> x = p \<and> sql_like ps xs))"

text \<open>A condition whose value has the type that \<open>matchCondition\<close> asserts for its property.\<close>

definition typed :: "Condition \<Rightarrow> bool" where
  "typed c =
     (case Value c of
        StringValue v \<Rightarrow> Property c = ''name'' \<or> Property c = ''type'' \<or> Property c = ''path''
      | SizeValue n \<Rightarrow> Property c = ''size''
      | DurationValue d \<Rightarrow> Property c = ''modified'')"

text \<open>The admission rule of the specification, on the results of \<open>IsSatisfied\<close>.\<close>

definition emit_rule :: "ConditionFilter \<Rightarrow> ConditionFilter \<Rightarrow> int \<Rightarrow> FileInfo \<Rightarrow> bool" where
  "emit_rule M X now e =
     ((conditions M = [] \<or> IsSatisfied M now e = Inr True) \<and>
      \<not> (conditions X \<noteq> [] \<and> IsSatisfied X now e = Inr True))"

text \<open>An entry with its depth lies within the cap; a cap that is not positive is no cap.\<close>

definition within :: "int \<Rightarrow> int \<times> FileInfo \<Rightarrow> bool" where
  "within depth de = (depth \<le> 0 \<or> fst de \<le> depth)"

definition subdirs_of :: "int \<Rightarrow> tree list \<Rightarrow> (tree \<times> int) list" where
  "subdirs_of d kids = map (\<lambda>k. (k, d + 1)) (filter (\<lambda>k. IsDir (entry k)) kids)"

definition level_entries :: "int \<Rightarrow> int \<Rightarrow> tree \<Rightarrow> FileInfo list" where
  "level_entries depth d t = map snd (filter (within depth) (entries_below d t))"

definition queue_entries :: "int \<Rightarrow> (tree \<times> int) list \<Rightarrow> FileInfo list" where
  "queue_entries depth q = concat (map (\<lambda>(t, d). level_entries depth d t) q)"

text \<open>Two small bloom filters for the examples.\<close>

definition tiny_bloom :: bloom_config where
  "tiny_bloom = \<lparr> bloom_bits = 2, bloom_hashes = [length] \<rparr>"

definition small_bloom :: bloom_config where
  "small_bloom = \<lparr> bloom_bits = 1024, bloom_hashes = [length, \<lambda>s. 7 * length s + 3] \<rparr>"

section \<open>Verified properties\<close>

subsection \<open>Catalog rows: the \<open>ext\<close> column\<close>

lemma ext_scan_char:
  "ext_scan r suffix =
     (if CHR ''.'' \<in> set (takeWhile (\<lambda>c. c \<noteq> CHR ''/'') r)
      then CHR ''.'' # rev (takeWhile (\<lambda>c. c \<noteq> CHR ''.'') r) @ suffix
      else [])"
  by (induction r arbitrary: suffix) (auto simp: Separator_def)

lemma takeWhile_dot_element:
  "takeWhile (\<lambda>c. c \<noteq> CHR ''.'') (takeWhile (\<lambda>c. c \<noteq> CHR ''/'') r) =
   (if CHR ''.'' \<in> set (takeWhile (\<lambda>c. c \<noteq> CHR ''/'') r)
    then takeWhile (\<lambda>c. c \<noteq> CHR ''.'') r
    else takeWhile (\<lambda>c. c \<noteq> CHR ''/'') r)"
  by (induction r) auto

lemma Ext_final_element:
  "Ext path =
     (let e = rev (takeWhile (\<lambda>c. c \<noteq> CHR ''/'') (rev path))
      in if CHR ''.'' \<in> set e
         then CHR ''.'' # rev (takeWhile (\<lambda>c. c \<noteq> CHR ''.'') (rev e))
         else [])"
  by (simp add: Ext_def ext_scan_char takeWhile_dot_element Let_def)

text \<open>
  For a key that is not empty and does not end in a separator, the final path element
  is the basename.
\<close>

lemma Base_final_element:
  assumes "path \<noteq> []" and "last path \<noteq> CHR ''/''"
  shows "Base path = rev (takeWhile (\<lambda>c. c \<noteq> CHR ''/'') (rev path))"
proof -
  from assms obtain c cs where "rev path = c # cs" and "c \<noteq> CHR ''/''"
    by (cases path rule: rev_cases) auto
  with assms(1) show ?thesis
    by (simp add: Base_def Separator_def Let_def)
qed

text \<open>
  C7, as stated, fails: for the key \<open>a/b.txt\<close> of a regular file the stored extension
  is not \<open>txt\<close>.
\<close>

theorem ext_counterexample:
  "fdExt (ProcessFileInfo (regular_file ''a/b.txt'' 1 0)) \<noteq> ''txt''"
  by code_simp

text \<open>
  C7, amended: the \<open>ext\<close> column of the row of an entry is empty for a directory;
  for any other entry it is the suffix of the final path element of the key that begins
  at its last dot, the dot included (\<open>.txt\<close> for \<open>a/b.txt\<close>), and empty when that
  element has no dot.
\<close>

theorem ext_column:
  "fdExt (ProcessFileInfo fileInfo) =
     (if IsDir fileInfo then []
      else let e = rev (takeWhile (\<lambda>c. c \<noteq> CHR ''/'') (rev (Key fileInfo)))
           in if CHR ''.'' \<in> set e
              then CHR ''.'' # rev (takeWhile (\<lambda>c. c \<noteq> CHR ''.'') (rev e))
              else [])"
  by (simp add: ProcessFileInfo_def Ext_final_element Let_def)

theorem ext_column_witness:
  "fdExt (ProcessFileInfo (regular_file ''a/b.txt'' 1 0)) = ''.txt'' \<and>
   fdExt (ProcessFileInfo (regular_file ''a.d/b'' 1 0)) = [] \<and>
   fdExt (ProcessFileInfo (directory ''a/b.txt'' 0)) = []"
  using ext_column [of "regular_file ''a/b.txt'' 1 0"]
        ext_column [of "regular_file ''a.d/b'' 1 0"]
        ext_column [of "directory ''a/b.txt'' 0"]
  by (simp add: regular_file_def directory_def)

subsection \<open>Statistics\<close>

lemma Update_directory:
  assumes "IsDir fileInfo"
  shows "totalNameLength (Update s fileInfo) = totalNameLength s"
    and "maxNameLength (Update s fileInfo) = maxNameLength s"
    and "fileCount (Update s fileInfo) = fileCount s"
  using assms by (simp_all add: Update_def Let_def)

lemma Update_file:
  assumes "\<not> IsDir fileInfo"
  shows "totalNameLength (Update s fileInfo) =
           int64 (totalNameLength s + int (length (Base (Key fileInfo))))"
    and "maxNameLength (Update s fileInfo) =
           max (maxNameLength s) (int (length (Base (Key fileInfo))))"
    and "fileCount (Update s fileInfo) = int64 (fileCount s + 1)"
  using assms by (simp_all add: Update_def Let_def max_def)

lemma scenario_scan:
  "ListAll scenario_tree 5 0 no_filter no_filter now =
     Inr [directory ''/a'' 0, directory ''/b'' 0,
          regular_file ''/a/f1'' 100 0, regular_file ''/a/f2'' 2048 0,
          regular_file ''/b/g1'' 5242880 0, directory ''/b/c'' 0,
          regular_file ''/b/c/h'' 10 0]"
  by (simp add: ListAll_def scenario_tree_def dir_node_def file_node_def list_dir_def
      admit_def no_filter_def regular_file_def directory_def)

lemma scenario_stats:
  "scan_stats [directory ''/a'' 0, directory ''/b'' 0,
          regular_file ''/a/f1'' 100 0, regular_file ''/a/f2'' 2048 0,
          regular_file ''/b/g1'' 5242880 0, directory ''/b/c'' 0,
          regular_file ''/b/c/h'' 10 0] =
     \<lparr> fileCount = 4, dirCount = 3, totalSize = 5245038, totalSymlink = 0,
       totalRegularFile = 4, totalNameLength = 7, maxNameLength = 2,
       totalDirDepth = 5, maxDirDepth = 2 \<rparr>"
  by code_simp

text \<open>
  C8, as stated, fails: \<open>Update\<close> on the directory \<open>/a\<close> does not add the length of
  its basename to \<open>totalNameLength\<close>, and the unfiltered scan of the tree of the
  scenario does not give the average name length 2.
\<close>

theorem name_length_counterexample:
  "totalNameLength (Update NewStats (directory ''/a'' 0)) \<noteq>
     totalNameLength NewStats + int (length (Base (Key (directory ''/a'' 0)))) \<and>
   (case ListAll scenario_tree 5 0 no_filter no_filter 0 of
      Inl p \<Rightarrow> True
    | Inr entries \<Rightarrow> GetAvgNameLength (scan_stats entries) \<noteq> 2)"
  by (simp add: scenario_scan scenario_stats GetAvgNameLength_def quo64_def int64_def)
     code_simp

text \<open>
  C8, amended: \<open>Update\<close> leaves \<open>totalNameLength\<close> and \<open>maxNameLength\<close> as they are
  for a directory entry; for any other entry it adds the length of the basename to
  \<open>totalNameLength\<close> (as an \<open>int64\<close>) and raises \<open>maxNameLength\<close> to it when it is
  larger.  For the unfiltered scan of the tree \<open>/a/f1\<close>, \<open>/a/f2\<close>, \<open>/b/g1\<close>,
  \<open>/b/c/h\<close> the seven entries give \<open>totalNameLength = 7\<close> over four files, and the
  average name length is 1.
\<close>

theorem name_length_updates:
  "(IsDir fileInfo \<longrightarrow>
      totalNameLength (Update s fileInfo) = totalNameLength s \<and>
      maxNameLength (Update s fileInfo) = maxNameLength s) \<and>
   (\<not> IsDir fileInfo \<longrightarrow>
      totalNameLength (Update s fileInfo) =
        int64 (totalNameLength s + int (length (Base (Key fileInfo)))) \<and>
      maxNameLength (Update s fileInfo) =
        max (maxNameLength s) (int (length (Base (Key fileInfo))))) \<and>
   (\<exists>entries. ListAll scenario_tree 5 0 no_filter no_filter now = Inr entries \<and>
      length entries = 7 \<and>
      totalNameLength (scan_stats entries) = 7 \<and>
      fileCount (scan_stats entries) = 4 \<and>
      GetAvgNameLength (scan_stats entries) = 1)"
proof (intro conjI impI)
  show "\<exists>entries. ListAll scenario_tree 5 0 no_filter no_filter now = Inr entries \<and>
      length entries = 7 \<and>
      totalNameLength (scan_stats entries) = 7 \<and>
      fileCount (scan_stats entries) = 4 \<and>
      GetAvgNameLength (scan_stats entries) = 1"
    by (simp add: scenario_scan scenario_stats GetAvgNameLength_def quo64_def int64_def)
qed (simp_all add: Update_directory Update_file)

theorem name_length_updates_witness:
  "totalNameLength (Update NewStats (directory ''/a'' 0)) = 0 \<and>
   maxNameLength (Update NewStats (directory ''/a'' 0)) = 0 \<and>
   totalNameLength (Update NewStats (regular_file ''/a/f1'' 100 0)) = 2 \<and>
   maxNameLength (Update NewStats (regular_file ''/a/f1'' 100 0)) = 2"
proof -
  have d: "IsDir (directory ''/a'' 0)" and f: "\<not> IsDir (regular_file ''/a/f1'' 100 0)"
    by (simp_all add: directory_def regular_file_def)
  have b: "Base (Key (regular_file ''/a/f1'' 100 0)) = ''f1''"
    by code_simp
  from name_length_updates [of "directory ''/a'' 0" NewStats 0] d
       name_length_updates [of "regular_file ''/a/f1'' 100 0" NewStats 0] f b
  show ?thesis
    by (simp add: NewStats_def int64_def)
qed

lemma Print_without_files:
  assumes "fileCount s = 0"
  shows "Print s = Inl IntegerDivideByZero"
    and "GenerateConsoleReportSummary s file_entries = Inl IntegerDivideByZero"
  using assms
  by (simp_all add: Print_def GenerateConsoleReportSummary_def quo64_def Let_def)

text \<open>
  C9 (the code departs from the claim): the scan of an empty directory emits nothing,
  the statistics count no file, and both \<open>Stats.Print\<close> and
  \<open>GenerateConsoleReportSummary\<close> then stop in the panic of the integer division
  \<open>totalSize / fileCount\<close>; they do not print the average 0.
\<close>

theorem summary_of_empty_scan_panics:
  "ListAll (dir_node ''/'' []) 5 0 no_filter no_filter 0 = Inr [] \<and>
   fileCount (scan_stats []) = 0 \<and>
   Print (scan_stats []) = Inl IntegerDivideByZero \<and>
   GenerateConsoleReportSummary (scan_stats []) [] = Inl IntegerDivideByZero"
  by (simp add: ListAll_def dir_node_def list_dir_def scan_stats_def NewStats_def
      Print_def GenerateConsoleReportSummary_def quo64_def)

subsection \<open>Compiled filters\<close>

lemma parseCondition_typed: "parseCondition s = Inr c \<Longrightarrow> typed c"
  by (auto simp: parseCondition_def typed_def Let_def opRegex_Split2_def
           split: option.splits if_splits sum.splits prod.splits)

lemma compile_conditions_set:
  "compile_conditions acc conds = Inr f \<Longrightarrow>
   set (conditions f) \<subseteq> set acc \<union> {c. \<exists>s \<in> set conds. parseCondition s = Inr c}"
proof (induction conds arbitrary: acc)
  case Nil
  then show ?case by auto
next
  case (Cons s conds)
  then show ?case by (fastforce split: sum.splits)
qed

lemma NewConditionFilter_parsed:
  "NewConditionFilter conds = Inr f \<Longrightarrow> c \<in> set (conditions f) \<Longrightarrow>
   \<exists>s \<in> set conds. parseCondition s = Inr c"
  using compile_conditions_set [of "[]" conds f] by (auto simp: NewConditionFilter_def)

lemma NewConditionFilter_typed:
  "NewConditionFilter conds = Inr f \<Longrightarrow> list_all typed (conditions f)"
  by (auto simp: list_all_iff dest!: NewConditionFilter_parsed parseCondition_typed)

lemma matchCondition_typed:
  "typed c \<Longrightarrow> \<exists>b. matchCondition now fi c = Inr b"
  by (auto simp: typed_def matchCondition_def split: cond_value.splits intro: exI [of _ True])

lemma satisfied_loop_typed:
  "list_all typed cs \<Longrightarrow> \<exists>b. satisfied_loop now fi cs = Inr b"
proof (induction cs)
  case Nil
  show ?case by (rule exI [of _ True]) simp
next
  case (Cons c cs)
  then obtain b where "matchCondition now fi c = Inr b"
    using matchCondition_typed [of c now fi] by auto
  with Cons show ?case by (cases b) auto
qed

lemma satisfied_loop_False:
  "list_all typed cs \<Longrightarrow> c \<in> set cs \<Longrightarrow> matchCondition now fi c = Inr False \<Longrightarrow>
   satisfied_loop now fi cs = Inr False"
proof (induction cs)
  case Nil
  then show ?case by simp
next
  case (Cons a cs)
  obtain b where b: "matchCondition now fi a = Inr b"
    using Cons.prems(1) matchCondition_typed [of a now fi] by auto
  show ?case
  proof (cases "a = c")
    case True
    with Cons.prems b show ?thesis by simp
  next
    case False
    with Cons b show ?thesis by auto
  qed
qed

subsection \<open>modified\<close>

lemma parse_modified_half:
  "parseCondition ''modified < 0.5'' =
     Inr \<lparr> Property = ''modified'', Operator = ''<'', Value = DurationValue 1800000000000 \<rparr>"
  by code_simp

lemma compile_modified_half:
  "NewConditionFilter (ParseConditions ''modified < 0.5'') =
     Inr \<lparr> conditions = [\<lparr> Property = ''modified'', Operator = ''<'',
                              Value = DurationValue 1800000000000 \<rparr>] \<rparr>"
  by code_simp

text \<open>
  C4 (the code departs from the claim): at the instant one hour, a file modified at
  minute fifty is ten minutes old, newer than thirty minutes before that instant, and
  the compiled condition \<open>modified < 0.5\<close> rejects it.  The examples in the help of
  the scan command read \<open>modified<0.5\<close> as modified in the last half hour.
\<close>

theorem modified_counterexample:
  "\<exists>f. NewConditionFilter (ParseConditions ''modified < 0.5'') = Inr f \<and>
       MTime (regular_file ''/f1'' 100 3000000000000) > 3600000000000 - 1800000000000 \<and>
       IsSatisfied f 3600000000000 (regular_file ''/f1'' 100 3000000000000) = Inr False"
  by (simp add: compile_modified_half IsSatisfied_def matchCondition_def matchTime_def
      regular_file_def int64_def)

text \<open>
  What the code computes instead: for every entry and every evaluation instant
  \<open>now\<close>, the compiled condition \<open>modified < 0.5\<close> is satisfied exactly when the
  modification time of the entry is earlier than \<open>now\<close> minus thirty minutes, that
  is, when the entry is older than half an hour.
\<close>

lemma modified_half_hour:
  "\<exists>f. NewConditionFilter (ParseConditions ''modified < 0.5'') = Inr f \<and>
       (\<forall>now fileInfo.
          IsSatisfied f now fileInfo = Inr (MTime fileInfo < now - 30 * 60 * 1000000000))"
  by (simp add: compile_modified_half IsSatisfied_def matchCondition_def matchTime_def int64_def)

lemma modified_half_hour_example:
  "\<exists>f. NewConditionFilter (ParseConditions ''modified < 0.5'') = Inr f \<and>
       IsSatisfied f 3600000000000 (regular_file ''/f1'' 100 1000000000000) = Inr True \<and>
       IsSatisfied f 3600000000000 (regular_file ''/f1'' 100 3000000000000) = Inr False"
proof -
  from modified_half_hour obtain f where
    f: "NewConditionFilter (ParseConditions ''modified < 0.5'') = Inr f" and
    s: "\<And>now fileInfo.
          IsSatisfied f now fileInfo = Inr (MTime fileInfo < now - 30 * 60 * 1000000000)"
    by blast
  show ?thesis
    using f by (intro exI [of _ f]) (simp add: s regular_file_def)
qed

subsection \<open>and\<close>

text \<open>
  C5 (the code departs from the claim): the expression \<open>name in 'sandbox'\<close> is cut
  inside the quoted value, at the letters \<open>and\<close> of \<open>sandbox\<close>; the second piece has
  no operator and the compilation of the filter fails.
\<close>

theorem and_inside_value_fails:
  "ParseConditions (''name in '' @ quoted ''sandbox'') =
     [''name in '' @ [single_quote, CHR ''s''], ''box'' @ [single_quote]] \<and>
   NewConditionFilter (ParseConditions (''name in '' @ quoted ''sandbox'')) =
     Inl (ParseFailed (''box'' @ [single_quote]) (NoOperatorFound (''box'' @ [single_quote])))"
  by code_simp

subsection \<open>like\<close>

text \<open>
  C6 (the code departs from the claim): the dot of the pattern \<open>main.go\<close> is handed to
  the regular expression as it is and matches any character, so the value
  \<open>mainxgo\<close> is accepted; with SQL wildcards it is not.
\<close>

theorem like_dot_is_wildcard:
  "matchString ''mainxgo'' ''like'' ''main.go'' \<and> \<not> sql_like ''main.go'' ''mainxgo''"
  by code_simp

subsection \<open>Lower case\<close>

lemma to_lower_char_not_upper: "\<not> is_upper (to_lower_char c)"
  by (auto simp: to_lower_char_def is_upper_def)

lemma ToLower_not_upper: "ch \<in> set (ToLower s) \<Longrightarrow> \<not> is_upper ch"
  by (auto simp: ToLower_def to_lower_char_not_upper)

lemma ToLower_idem: "ToLower (ToLower s) = ToLower s"
  by (simp add: ToLower_def to_lower_char_def to_lower_char_not_upper [unfolded to_lower_char_def])

lemma Split_chars: "x \<in> set (Split s sep) \<Longrightarrow> set x \<subseteq> set s"
proof (induction s sep arbitrary: x rule: Split.induct)
  case (1 s sep)
  show ?case
  proof (cases "sep = []")
    case True
    with "1.prems" show ?thesis by (subst (asm) Split.simps) auto
  next
    case False
    show ?thesis
    proof (cases "Index s sep")
      case None
      with False "1.prems" show ?thesis by (subst (asm) Split.simps) simp
    next
      case (Some m)
      with False "1.prems" have "x = take m s \<or> x \<in> set (Split (drop (m + length sep) s) sep)"
        by (subst (asm) Split.simps) simp
      then show ?thesis
      proof
        assume "x = take m s"
        then show ?thesis by (auto dest: in_set_takeD)
      next
        assume "x \<in> set (Split (drop (m + length sep) s) sep)"
        then have "set x \<subseteq> set (drop (m + length sep) s)"
          using "1.IH" [OF False Some] by simp
        then show ?thesis by (auto dest: in_set_dropD)
      qed
    qed
  qed
qed

lemma TrimSpace_chars: "set (TrimSpace s) \<subseteq> set s"
  by (auto simp: TrimSpace_def dest!: set_dropWhileD)

lemma Trim_chars: "set (Trim s cutset) \<subseteq> set s"
  by (auto simp: Trim_def dest!: set_dropWhileD)

lemma ParseConditions_chars:
  "cl \<in> set (ParseConditions input) \<Longrightarrow> set cl \<subseteq> set (ToLower input)"
proof -
  assume "cl \<in> set (ParseConditions input)"
  then obtain x where "x \<in> set (Split (ToLower input) ''and'')" and "cl = TrimSpace x"
    by (auto simp: ParseConditions_def)
  then show ?thesis
    using TrimSpace_chars [of x] Split_chars [of x "ToLower input" "''and''"] by auto
qed

lemma value_text_chars:
  "x \<in> set (Trim (TrimSpace (dropWhile P (drop n s))) cutset) \<Longrightarrow> x \<in> set s"
proof -
  assume "x \<in> set (Trim (TrimSpace (dropWhile P (drop n s))) cutset)"
  then have "x \<in> set (TrimSpace (dropWhile P (drop n s)))"
    using Trim_chars by blast
  then have "x \<in> set (dropWhile P (drop n s))"
    using TrimSpace_chars by blast
  then show ?thesis
    by (auto dest!: set_dropWhileD in_set_dropD)
qed

lemma parseCondition_value_chars:
  "parseCondition s = Inr c \<Longrightarrow> Value c = StringValue v \<Longrightarrow> set v \<subseteq> set s"
  by (auto simp: parseCondition_def Let_def opRegex_Split2_def
           split: option.splits if_splits sum.splits prod.splits
           dest: value_text_chars)

lemma cli_value_chars:
  assumes "NewConditionFilter (ParseConditions expr) = Inr f"
    and "cond \<in> set (conditions f)" and "Value cond = StringValue v"
  shows "set v \<subseteq> set (ToLower expr)"
proof -
  from NewConditionFilter_parsed [OF assms(1,2)] obtain cl where
    "cl \<in> set (ParseConditions expr)" and "parseCondition cl = Inr cond"
    by blast
  with assms(3) show ?thesis
    using parseCondition_value_chars ParseConditions_chars by blast
qed

text \<open>
  C10, as stated, fails: compiled through the command line, \<open>name != 'README.md'\<close> is
  satisfied by the entry \<open>/README.md\<close>, whose basename has upper-case letters.
\<close>

theorem uppercase_counterexample:
  "\<exists>f. NewConditionFilter (ParseConditions (''name != '' @ quoted ''README.md'')) = Inr f \<and>
       list_ex is_upper (Base (Key (regular_file ''/README.md'' 1 0))) \<and>
       IsSatisfied f 0 (regular_file ''/README.md'' 1 0) = Inr True"
proof -
  have "NewConditionFilter (ParseConditions (''name != '' @ quoted ''README.md'')) =
          Inr \<lparr> conditions = [\<lparr> Property = ''name'', Operator = ''!='',
                                   Value = StringValue ''readme.md'' \<rparr>] \<rparr>"
    by code_simp
  moreover have "list_ex is_upper (Base (Key (regular_file ''/README.md'' 1 0)))"
    by code_simp
  moreover have "IsSatisfied \<lparr> conditions = [\<lparr> Property = ''name'', Operator = ''!='',
                                   Value = StringValue ''readme.md'' \<rparr>] \<rparr>
                   0 (regular_file ''/README.md'' 1 0) = Inr True"
    by code_simp
  ultimately show ?thesis by simp
qed

lemma like_accepts_upper:
  "\<exists>g. NewConditionFilter (ParseConditions (''name like '' @ quoted ''READ%'')) = Inr g \<and>
       list_ex is_upper (Base (Key (regular_file ''/readME'' 1 0))) \<and>
       IsSatisfied g 0 (regular_file ''/readME'' 1 0) = Inr True"
proof -
  have "NewConditionFilter (ParseConditions (''name like '' @ quoted ''READ%'')) =
          Inr \<lparr> conditions = [\<lparr> Property = ''name'', Operator = ''like'',
                                   Value = StringValue ''read%'' \<rparr>] \<rparr>"
    by code_simp
  moreover have "list_ex is_upper (Base (Key (regular_file ''/readME'' 1 0)))"
    by code_simp
  moreover have "IsSatisfied \<lparr> conditions = [\<lparr> Property = ''name'', Operator = ''like'',
                                   Value = StringValue ''read%'' \<rparr>] \<rparr>
                   0 (regular_file ''/readME'' 1 0) = Inr True"
    by code_simp
  ultimately show ?thesis by simp
qed

text \<open>
  C10, amended: \<open>ParseConditions\<close> works on the lower-cased expression, so every string
  value of a filter compiled through the command line, whatever its property, is free
  of upper-case letters.  For an entry whose basename has an upper-case letter, a
  compiled condition on \<open>name\<close> with \<open>==\<close> is never satisfied (and neither is the
  filter), and one with \<open>!=\<close> always is.  A \<open>like\<close> condition can still accept such an
  entry through its wildcards: \<open>name like 'READ%'\<close> accepts \<open>/readME\<close>.
\<close>

theorem cli_lowercases_values:
  assumes "NewConditionFilter (ParseConditions expr) = Inr f"
    and "cond \<in> set (conditions f)"
  shows "ParseConditions expr = ParseConditions (ToLower expr) \<and>
         (\<forall>v. Value cond = StringValue v \<longrightarrow> \<not> list_ex is_upper v) \<and>
         (Property cond = ''name'' \<and> Operator cond = ''=='' \<and>
          list_ex is_upper (Base (Key fileInfo)) \<longrightarrow>
            matchCondition now fileInfo cond = Inr False \<and>
            IsSatisfied f now fileInfo = Inr False) \<and>
         (Property cond = ''name'' \<and> Operator cond = ''!='' \<and>
          list_ex is_upper (Base (Key fileInfo)) \<longrightarrow>
            matchCondition now fileInfo cond = Inr True) \<and>
         (\<exists>g. NewConditionFilter (ParseConditions (''name like '' @ quoted ''READ%'')) = Inr g \<and>
              list_ex is_upper (Base (Key (regular_file ''/readME'' 1 0))) \<and>
              IsSatisfied g 0 (regular_file ''/readME'' 1 0) = Inr True)"
proof -
  have lower: "\<not> list_ex is_upper v" if "Value cond = StringValue v" for v
    using cli_value_chars [OF assms(1,2) that] ToLower_not_upper
    by (auto simp: list_ex_iff)
  have ty: "list_all typed (conditions f)"
    using assms(1) by (rule NewConditionFilter_typed)
  with assms(2) have tc: "typed cond" by (simp add: list_all_iff)
  have ne: "\<exists>v. Value cond = StringValue v \<and> Base (Key fileInfo) \<noteq> v"
    if "Property cond = ''name''" and "list_ex is_upper (Base (Key fileInfo))"
  proof -
    from tc that(1) obtain v where v: "Value cond = StringValue v"
      by (auto simp: typed_def split: cond_value.splits)
    from lower [OF v] that(2) have "Base (Key fileInfo) \<noteq> v" by auto
    with v show ?thesis by blast
  qed
  have eq: "matchCondition now fileInfo cond = Inr False"
    if "Property cond = ''name''" and "Operator cond = ''==''"
      and "list_ex is_upper (Base (Key fileInfo))"
    using ne [OF that(1,3)] that(1,2) by (auto simp: matchCondition_def matchString_def)
  have neq: "matchCondition now fileInfo cond = Inr True"
    if "Property cond = ''name''" and "Operator cond = ''!=''"
      and "list_ex is_upper (Base (Key fileInfo))"
    using ne [OF that(1,3)] that(1,2) by (auto simp: matchCondition_def matchString_def)
  have sat: "IsSatisfied f now fileInfo = Inr False"
    if "Property cond = ''name''" and "Operator cond = ''==''"
      and "list_ex is_upper (Base (Key fileInfo))"
    unfolding IsSatisfied_def
    using ty assms(2) eq [OF that] by (rule satisfied_loop_False)
  have low: "ParseConditions expr = ParseConditions (ToLower expr)"
    by (simp add: ParseConditions_def ToLower_idem)
  show ?thesis
    using low lower eq neq sat like_accepts_upper by blast
qed

theorem cli_lowercases_values_witness:
  "ParseConditions (''path == '' @ quoted ''/Docs/README.md'') =
     ParseConditions (ToLower (''path == '' @ quoted ''/Docs/README.md'')) \<and>
   \<not> list_ex is_upper ''/docs/readme.md'' \<and>
   \<not> list_ex is_upper ''readme.md'' \<and>
   matchCondition 0 (regular_file ''/README.md'' 1 0)
     \<lparr> Property = ''name'', Operator = ''=='', Value = StringValue ''readme.md'' \<rparr> = Inr False \<and>
   IsSatisfied
     \<lparr> conditions = [\<lparr> Property = ''name'', Operator = ''=='',
                            Value = StringValue ''readme.md'' \<rparr>] \<rparr>
     0 (regular_file ''/README.md'' 1 0) = Inr False \<and>
   matchCondition 0 (regular_file ''/README.md'' 1 0)
     \<lparr> Property = ''name'', Operator = ''!='', Value = StringValue ''readme.md'' \<rparr> = Inr True"
proof -
  let ?p = "\<lparr> Property = ''path'', Operator = ''=='', Value = StringValue ''/docs/readme.md'' \<rparr>"
  let ?c = "\<lparr> Property = ''name'', Operator = ''=='', Value = StringValue ''readme.md'' \<rparr>"
  let ?d = "\<lparr> Property = ''name'', Operator = ''!='', Value = StringValue ''readme.md'' \<rparr>"
  have fp: "NewConditionFilter (ParseConditions (''path == '' @ quoted ''/Docs/README.md'')) =
             Inr \<lparr> conditions = [?p] \<rparr>"
    by code_simp
  have fc: "NewConditionFilter (ParseConditions (''name == '' @ quoted ''README.md'')) =
             Inr \<lparr> conditions = [?c] \<rparr>"
    by code_simp
  have fd: "NewConditionFilter (ParseConditions (''name != '' @ quoted ''README.md'')) =
             Inr \<lparr> conditions = [?d] \<rparr>"
    by code_simp
  have p: "?p \<in> set (conditions \<lparr> conditions = [?p] \<rparr>)"
    and c: "?c \<in> set (conditions \<lparr> conditions = [?c] \<rparr>)"
    and d: "?d \<in> set (conditions \<lparr> conditions = [?d] \<rparr>)"
    by simp_all
  have u: "list_ex is_upper (Base (Key (regular_file ''/README.md'' 1 0)))"
    by code_simp
  from cli_lowercases_values [OF fp p, of "regular_file ''/README.md'' 1 0" 0]
       cli_lowercases_values [OF fc c, of "regular_file ''/README.md'' 1 0" 0]
       cli_lowercases_values [OF fd d, of "regular_file ''/README.md'' 1 0" 0] u
  show ?thesis by simp
qed


subsection \<open>Walker\<close>

lemma IsSatisfied_typed:
  "list_all typed (conditions f) \<Longrightarrow> \<exists>b. IsSatisfied f now e = Inr b"
  by (simp add: IsSatisfied_def satisfied_loop_typed)

lemma admit_typed:
  assumes "list_all typed (conditions M)" and "list_all typed (conditions X)"
  shows "admit M X now e = Inr (emit_rule M X now e)"
proof -
  obtain a b where "IsSatisfied M now e = Inr a" and "IsSatisfied X now e = Inr b"
    using IsSatisfied_typed [OF assms(1)] IsSatisfied_typed [OF assms(2)] by blast
  then show ?thesis
    by (auto simp: admit_def emit_rule_def)
qed

lemma list_loop_typed:
  assumes "list_all typed (conditions M)" and "list_all typed (conditions X)"
  shows "list_loop M X now d kids =
           Inr (filter (emit_rule M X now) (map entry kids), subdirs_of d kids)"
  by (induction kids) (simp_all add: admit_typed [OF assms] subdirs_of_def)

lemma list_dir_typed:
  assumes "list_all typed (conditions M)" and "list_all typed (conditions X)"
  shows "list_dir depth M X now dir d =
           (if depth > 0 \<and> d > depth then Inr ([], [])
            else if list_fails dir then Inl StorageListFailed
            else Inr (filter (emit_rule M X now) (map entry (children dir)),
                      subdirs_of d (children dir)))"
  by (simp add: list_dir_def list_loop_typed [OF assms])

lemma no_filter_typed: "list_all typed (conditions no_filter)"
  by (simp add: no_filter_def)

lemma emit_rule_no_filter: "emit_rule no_filter no_filter now e"
  by (simp add: emit_rule_def no_filter_def)

lemma walk_filtered:
  "list_all typed (conditions M) \<Longrightarrow> list_all typed (conditions X) \<Longrightarrow>
   \<exists>enumerated. walk depth no_filter no_filter now q = Inr enumerated \<and>
      walk depth M X now q = Inr (filter (emit_rule M X now) enumerated)"
proof (induction depth M X now q rule: walk.induct)
  case (1 depth M X now)
  show ?case by simp
next
  case (2 depth M X now dir d queue)
  note typed = "2.prems"
  note dirM = list_dir_typed [OF typed, where depth = depth and now = now and dir = dir and d = d]
  note dirN = list_dir_typed [OF no_filter_typed no_filter_typed,
      where depth = depth and now = now and dir = dir and d = d]
  consider (cut) "depth > 0 \<and> d > depth"
    | (fails) "\<not> (depth > 0 \<and> d > depth)" "list_fails dir"
    | (lists) "\<not> (depth > 0 \<and> d > depth)" "\<not> list_fails dir"
    by blast
  then show ?case
  proof cases
    case cut
    have dM: "list_dir depth M X now dir d = Inr ([], [])"
      unfolding dirM using cut by auto
    have dN: "list_dir depth no_filter no_filter now dir d = Inr ([], [])"
      unfolding dirN using cut by auto
    from "2.IH"(2) [OF dM refl typed] obtain en where
      "walk depth no_filter no_filter now queue = Inr en"
      "walk depth M X now queue = Inr (filter (emit_rule M X now) en)"
      by auto
    then show ?thesis by (simp add: dM dN)
  next
    case fails
    have dM: "list_dir depth M X now dir d = Inl StorageListFailed"
      unfolding dirM using fails by auto
    have dN: "list_dir depth no_filter no_filter now dir d = Inl StorageListFailed"
      unfolding dirN using fails by auto
    from "2.IH"(1) [OF dM refl typed] obtain en where
      "walk depth no_filter no_filter now queue = Inr en"
      "walk depth M X now queue = Inr (filter (emit_rule M X now) en)"
      by auto
    then show ?thesis by (simp add: dM dN)
  next
    case lists
    have dM: "list_dir depth M X now dir d =
        Inr (filter (emit_rule M X now) (map entry (children dir)), subdirs_of d (children dir))"
      unfolding dirM using lists by auto
    have dN: "list_dir depth no_filter no_filter now dir d =
        Inr (map entry (children dir), subdirs_of d (children dir))"
      unfolding dirN using lists by (auto simp: emit_rule_no_filter)
    from "2.IH"(2) [OF dM refl typed] obtain en where
      "walk depth no_filter no_filter now (queue @ subdirs_of d (children dir)) = Inr en"
      "walk depth M X now (queue @ subdirs_of d (children dir)) =
         Inr (filter (emit_rule M X now) en)"
      by auto
    then show ?thesis by (simp add: dM dN)
  qed
qed

lemma entries_below_depth: "(d', e) \<in> set (entries_below d t) \<Longrightarrow> d \<le> d'"
proof (induction d t arbitrary: d' e rule: entries_below.induct)
  case (1 d e0 f kids)
  from "1.prems" obtain k where k: "k \<in> set kids"
    and "(d', e) = (d, entry k) \<or>
         (IsDir (entry k) \<and> (d', e) \<in> set (entries_below (d + 1) k))"
    by (auto split: if_splits)
  then show ?case
    using "1.IH" [OF k] by fastforce
qed

lemma level_entries_cut:
  assumes "depth > 0" and "d > depth"
  shows "level_entries depth d t = []"
proof -
  have "\<not> within depth de" if "de \<in> set (entries_below d t)" for de
    using that assms entries_below_depth [of "fst de" "snd de" d t]
    by (auto simp: within_def)
  then show ?thesis
    by (simp add: level_entries_def filter_empty_conv)
qed

lemma queue_entries_append:
  "queue_entries depth (q @ q') = queue_entries depth q @ queue_entries depth q'"
  by (simp add: queue_entries_def)

lemma level_entries_children:
  assumes "\<not> (depth > 0 \<and> d > depth)"
  shows "mset (map snd (filter (within depth)
           (concat (map (\<lambda>k. (d, entry k) #
                      (if IsDir (entry k) then entries_below (d + 1) k else [])) kids)))) =
         mset (map entry kids) + mset (queue_entries depth (subdirs_of d kids))"
proof (induction kids)
  case Nil
  show ?case by (simp add: queue_entries_def subdirs_of_def)
next
  case (Cons k kids)
  have w: "within depth (d, entry k)"
    using assms by (auto simp: within_def)
  show ?case
    using Cons w
    by (simp add: queue_entries_def subdirs_of_def level_entries_def)
qed

lemma level_entries_node:
  assumes "\<not> (depth > 0 \<and> d > depth)"
  shows "mset (level_entries depth d dir) =
         mset (map entry (children dir)) + mset (queue_entries depth (subdirs_of d (children dir)))"
proof (cases dir)
  case (Node e f kids)
  then show ?thesis
    using level_entries_children [OF assms, of kids]
    by (simp add: level_entries_def)
qed

lemma subdirs_no_errors:
  "no_list_errors dir \<Longrightarrow> list_all (\<lambda>(t, d). no_list_errors t) (subdirs_of d (children dir))"
  by (cases dir) (auto simp: subdirs_of_def list_all_iff)

lemma walk_levels:
  "list_all typed (conditions M) \<Longrightarrow> list_all typed (conditions X) \<Longrightarrow>
   list_all (\<lambda>(t, d). no_list_errors t) q \<Longrightarrow>
   \<exists>out. walk depth M X now q = Inr out \<and>
         mset out = filter_mset (emit_rule M X now) (mset (queue_entries depth q))"
proof (induction depth M X now q rule: walk.induct)
  case (1 depth M X now)
  show ?case by (simp add: queue_entries_def)
next
  case (2 depth M X now dir d queue)
  note typed = "2.prems"(1,2)
  from "2.prems"(3) have ok: "no_list_errors dir"
    and okq: "list_all (\<lambda>(t, d). no_list_errors t) queue"
    by simp_all
  then have nf: "\<not> list_fails dir" by (cases dir) simp
  note dirM = list_dir_typed [OF typed, where depth = depth and now = now and dir = dir and d = d]
  show ?case
  proof (cases "depth > 0 \<and> d > depth")
    case True
    have dM: "list_dir depth M X now dir d = Inr ([], [])"
      unfolding dirM using True by auto
    from "2.IH"(2) [OF dM refl typed] okq obtain out where
      "walk depth M X now queue = Inr out"
      "mset out = filter_mset (emit_rule M X now) (mset (queue_entries depth queue))"
      by auto
    moreover have "level_entries depth d dir = []"
      using True by (simp add: level_entries_cut)
    ultimately show ?thesis
      by (simp add: dM queue_entries_def)
  next
    case False
    have dM: "list_dir depth M X now dir d =
        Inr (filter (emit_rule M X now) (map entry (children dir)), subdirs_of d (children dir))"
      unfolding dirM using False nf by auto
    have "list_all (\<lambda>(t, d). no_list_errors t) (queue @ subdirs_of d (children dir))"
      using okq subdirs_no_errors [OF ok] by simp
    from "2.IH"(2) [OF dM refl typed this] obtain out where
      w: "walk depth M X now (queue @ subdirs_of d (children dir)) = Inr out" and
      m: "mset out = filter_mset (emit_rule M X now)
            (mset (queue_entries depth (queue @ subdirs_of d (children dir))))"
      by auto
    have "mset (queue_entries depth ((dir, d) # queue)) =
          mset (map entry (children dir)) +
          mset (queue_entries depth (queue @ subdirs_of d (children dir)))"
      using level_entries_node [OF False, of dir]
      by (simp add: queue_entries_def)
    with w m show ?thesis
      by (simp add: dM)
  qed
qed

lemma level_entries_first:
  "map snd (filter (\<lambda>(d, e). d \<le> 1) (entries_below 1 t)) = map entry (children t)"
proof (cases t)
  case (Node e f kids)
  have "filter (\<lambda>(d, e). d \<le> 1) (entries_below (1 + 1) k) = []" for k
    using entries_below_depth [of _ _ "1 + 1" k] by (fastforce simp: filter_empty_conv)
  then have "map snd (filter (\<lambda>(d, e). d \<le> 1)
          (concat (map (\<lambda>k. (1, entry k) #
              (if IsDir (entry k) then entries_below (1 + 1) k else [])) ks))) = map entry ks" for ks
    by (induction ks) (simp_all del: one_add_one)
  with Node show ?thesis by (simp del: one_add_one)
qed

lemma ListAll_levels:
  assumes "NewConditionFilter matchExprs = Inr M" and "NewConditionFilter excludeExprs = Inr X"
    and "0 < concurrency" and "no_list_errors storage"
  shows "\<exists>out. ListAll storage concurrency depth M X now = Inr out \<and>
           mset out = mset (filter (emit_rule M X now)
                        (map snd (filter (within depth) (entries_below 1 storage))))"
proof -
  have "list_all typed (conditions M)" "list_all typed (conditions X)"
    using assms(1,2) by (simp_all add: NewConditionFilter_typed)
  from walk_levels [OF this, of "[(storage, 1)]" depth now] assms(3,4)
  show ?thesis
    by (simp add: ListAll_def queue_entries_def level_entries_def)
qed

lemma compile_nothing: "NewConditionFilter [] = Inr no_filter"
  by (simp add: NewConditionFilter_def no_filter_def)

lemma compile_type_dir:
  "NewConditionFilter (ParseConditions ''type == dir'') =
     Inr \<lparr> conditions = [\<lparr> Property = ''type'', Operator = ''=='',
                              Value = StringValue ''dir'' \<rparr>] \<rparr>"
  by code_simp

text \<open>
  C2: for every tree behind the scan root and every pair of compiled filters, the
  walker lists the same directories whatever the filters are, and of the entries it
  enumerates it emits exactly those that pass the admission rule: the match filter is
  empty or satisfied, and the exclude filter is not both non-empty and satisfied.  A
  directory that is not emitted is still listed.  When no listing fails and there is no
  depth cap, the enumerated entries are all entries of the tree, so no entry that passes
  the rule is missing.
\<close>

theorem walker_admission:
  assumes "NewConditionFilter matchExprs = Inr M" and "NewConditionFilter excludeExprs = Inr X"
    and "0 < concurrency"
  shows "\<exists>enumerated.
           ListAll storage concurrency depth no_filter no_filter now = Inr enumerated \<and>
           ListAll storage concurrency depth M X now =
             Inr (filter (\<lambda>e. (conditions M = [] \<or> IsSatisfied M now e = Inr True) \<and>
                              \<not> (conditions X \<noteq> [] \<and> IsSatisfied X now e = Inr True))
                    enumerated) \<and>
           (no_list_errors storage \<and> depth \<le> 0 \<longrightarrow>
              mset enumerated = mset (map snd (entries_below 1 storage)))"
proof -
  have ty: "list_all typed (conditions M)" "list_all typed (conditions X)"
    using assms(1,2) by (simp_all add: NewConditionFilter_typed)
  from walk_filtered [OF ty, of depth now "[(storage, 1)]"] obtain enumerated where
    en: "walk depth no_filter no_filter now [(storage, 1)] = Inr enumerated" and
    out: "walk depth M X now [(storage, 1)] = Inr (filter (emit_rule M X now) enumerated)"
    by blast
  have all: "mset enumerated = mset (map snd (entries_below 1 storage))"
    if "no_list_errors storage" and "depth \<le> 0"
  proof -
    from ListAll_levels [OF compile_nothing compile_nothing assms(3) that(1), of depth now]
    have "mset enumerated = mset (filter (emit_rule no_filter no_filter now)
            (map snd (filter (within depth) (entries_below 1 storage))))"
      using en assms(3) by (simp add: ListAll_def)
    moreover have "filter (emit_rule no_filter no_filter now) xs = xs" for xs
      by (simp add: emit_rule_no_filter)
    moreover have "filter (within depth) ys = ys" for ys
      using that(2) by (simp add: within_def)
    ultimately show ?thesis by simp
  qed
  have "emit_rule M X now = (\<lambda>e. (conditions M = [] \<or> IsSatisfied M now e = Inr True) \<and>
                              \<not> (conditions X \<noteq> [] \<and> IsSatisfied X now e = Inr True))"
    by (simp add: emit_rule_def fun_eq_iff)
  with en out all assms(3) show ?thesis
    by (auto simp: ListAll_def)
qed

theorem walker_admission_witness:
  "ListAll scenario_tree 5 0
     \<lparr> conditions = [\<lparr> Property = ''type'', Operator = ''=='', Value = StringValue ''dir'' \<rparr>] \<rparr>
     no_filter 0 =
   Inr [directory ''/a'' 0, directory ''/b'' 0, directory ''/b/c'' 0]"
proof -
  let ?M = "\<lparr> conditions = [\<lparr> Property = ''type'', Operator = ''=='',
                                 Value = StringValue ''dir'' \<rparr>] \<rparr>"
  have five: "(0::int) < 5" by simp
  from walker_admission [OF compile_type_dir compile_nothing five,
      of scenario_tree 0 0]
  show ?thesis
    by (simp add: scenario_scan)
       (simp add: no_filter_def IsSatisfied_def matchCondition_def matchString_def
          directory_def regular_file_def)
qed

text \<open>
  C3: when no listing fails, the walker with a depth cap \<open>D > 0\<close> emits exactly the
  admitted entries at the depths 1 to \<open>D\<close>, a child of the root having depth 1, and
  none below; with \<open>D = 0\<close> it emits the admitted entries of all depths; with
  \<open>D = 1\<close> those among the children of the root.
\<close>

theorem walker_depth_cap:
  assumes "NewConditionFilter matchExprs = Inr M" and "NewConditionFilter excludeExprs = Inr X"
    and "0 < concurrency" and "no_list_errors storage"
  shows "\<exists>out. ListAll storage concurrency D M X now = Inr out \<and>
           (0 < D \<longrightarrow>
              mset out =
                mset (filter (\<lambda>e. (conditions M = [] \<or> IsSatisfied M now e = Inr True) \<and>
                                  \<not> (conditions X \<noteq> [] \<and> IsSatisfied X now e = Inr True))
                       (map snd (filter (\<lambda>(d, e). 1 \<le> d \<and> d \<le> D)
                                   (entries_below 1 storage))))) \<and>
           (D = 0 \<longrightarrow>
              mset out =
                mset (filter (\<lambda>e. (conditions M = [] \<or> IsSatisfied M now e = Inr True) \<and>
                                  \<not> (conditions X \<noteq> [] \<and> IsSatisfied X now e = Inr True))
                       (map snd (entries_below 1 storage)))) \<and>
           (D = 1 \<longrightarrow>
              mset out =
                mset (filter (\<lambda>e. (conditions M = [] \<or> IsSatisfied M now e = Inr True) \<and>
                                  \<not> (conditions X \<noteq> [] \<and> IsSatisfied X now e = Inr True))
                       (map entry (children storage))))"
proof -
  let ?rule = "\<lambda>e. (conditions M = [] \<or> IsSatisfied M now e = Inr True) \<and>
                    \<not> (conditions X \<noteq> [] \<and> IsSatisfied X now e = Inr True)"
  have rule: "emit_rule M X now = ?rule"
    by (simp add: emit_rule_def fun_eq_iff)
  from ListAll_levels [OF assms, of D now] obtain out where
    out: "ListAll storage concurrency D M X now = Inr out" and
    m: "mset out = mset (filter ?rule (map snd (filter (within D) (entries_below 1 storage))))"
    by (auto simp: rule)
  have pos: "filter (within D) (entries_below 1 storage) =
             filter (\<lambda>(d, e). 1 \<le> d \<and> d \<le> D) (entries_below 1 storage)" if "0 < D"
    using that entries_below_depth [of _ _ 1 storage]
    by (intro filter_cong) (auto simp: within_def)
  have zero: "filter (within 0) (entries_below 1 storage) = entries_below 1 storage"
    by (simp add: within_def)
  have "within 1 = (\<lambda>(d, e). d \<le> 1)"
    by (auto simp: within_def fun_eq_iff)
  then have one:
    "map snd (filter (within 1) (entries_below 1 storage)) = map entry (children storage)"
    by (simp add: level_entries_first)
  have A: "mset out = mset (filter ?rule (map snd (filter (\<lambda>(d, e). 1 \<le> d \<and> d \<le> D)
                                   (entries_below 1 storage))))" if "0 < D"
    using m unfolding pos [OF that] .
  have B: "mset out = mset (filter ?rule (map snd (entries_below 1 storage)))" if "D = 0"
    using m unfolding that zero .
  have C: "mset out = mset (filter ?rule (map entry (children storage)))" if "D = 1"
    using m unfolding that one .
  show ?thesis
    using out A B C by blast
qed

theorem walker_depth_cap_witness:
  "\<exists>out. ListAll scenario_tree 5 1 no_filter no_filter 0 = Inr out \<and>
         mset out = mset [directory ''/a'' 0, directory ''/b'' 0]"
proof -
  have five: "(0::int) < 5" by simp
  have ok: "no_list_errors scenario_tree"
    by (simp add: scenario_tree_def dir_node_def file_node_def)
  from walker_depth_cap [OF compile_nothing compile_nothing five ok, of 1 0]
  obtain out where
    "ListAll scenario_tree 5 1 no_filter no_filter 0 = Inr out" and
    "mset out =
       mset (filter (\<lambda>e. (conditions no_filter = [] \<or> IsSatisfied no_filter 0 e = Inr True) \<and>
                         \<not> (conditions no_filter \<noteq> [] \<and> IsSatisfied no_filter 0 e = Inr True))
              (map entry (children scenario_tree)))"
    by auto
  then show ?thesis
    by (intro exI [of _ out]) (simp add: no_filter_def scenario_tree_def dir_node_def)
qed

subsection \<open>Incremental diff engine\<close>

lemma bloom_bits_grow: "foldl (AddString cfg) B xs = B \<union> (\<Union>s \<in> set xs. set (locations cfg s))"
  by (induction xs arbitrary: B) (auto simp: AddString_def)

lemma bloom_no_false_negative:
  "s \<in> set added \<Longrightarrow> TestString cfg (foldl (AddString cfg) {} added) s"
  by (auto simp: TestString_def bloom_bits_grow list_all_iff)

lemma SaveEntries_rows: "SaveEntries fileInfos table = table @ map ProcessFileInfo fileInfos"
  by (simp add: SaveEntries_def)

lemma load_loop_rows:
  "load_loop batchSize buffer table rest = table @ map ProcessFileInfo (buffer @ rest)"
  by (induction rest arbitrary: buffer table) (simp_all add: SaveEntries_rows Let_def)

lemma loadCandidatesToTemp_rows:
  "loadCandidatesToTemp candidates [] batchSize = map ProcessFileInfo candidates"
  by (simp add: loadCandidatesToTemp_def load_loop_rows)

lemma Key_ProcessFileInfo: "fdKey (ProcessFileInfo e) = Key e"
  by (simp add: ProcessFileInfo_def Let_def)

lemma incremental_returns:
  assumes "length (filter (\<lambda>item. TestString cfg (foldl (AddString cfg) {} (map fdKey file_entries))
                             (Key item)) scanned) \<le> 100000"
  shows "\<exists>r. ProcessFilesForIncrementalScan DBBatchSize cfg scanned file_entries = Some r"
  using assms
  by (simp add: ProcessFilesForIncrementalScan_def bloomPreFilter_def Let_def
      candidateChan_capacity_def)

lemma incremental_blocks:
  assumes "length (filter (\<lambda>item. Key item \<in> fdKey ` set file_entries) scanned) > 100000"
  shows "ProcessFilesForIncrementalScan DBBatchSize cfg scanned file_entries = None"
proof -
  let ?B = "foldl (AddString cfg) {} (map fdKey file_entries)"
  have "length (filter (\<lambda>item. Key item \<in> fdKey ` set file_entries) scanned)
        \<le> length (filter (\<lambda>item. TestString cfg ?B (Key item)) scanned)"
  proof (induction scanned)
    case Nil
    show ?case by simp
  next
    case (Cons e es)
    then show ?case
      using bloom_no_false_negative [of "Key e" "map fdKey file_entries" cfg]
      by auto
  qed
  with assms show ?thesis
    by (simp add: ProcessFilesForIncrementalScan_def bloomPreFilter_def Let_def
        candidateChan_capacity_def)
qed

lemma incremental_outputs:
  assumes "ProcessFilesForIncrementalScan DBBatchSize cfg scanned file_entries =
             Some (newFiles, changedFiles)"
  shows "set newFiles \<union> set changedFiles \<subseteq> ProcessFileInfo ` set scanned"
    and "\<forall>r \<in> set newFiles. fdKey r \<notin> fdKey ` set file_entries"
    and "\<forall>r \<in> set changedFiles. \<exists>f \<in> set file_entries.
           fdKey f = fdKey r \<and> (fdCTime r \<noteq> fdCTime f \<or> fdMTime r \<noteq> fdMTime f)"
    and "\<forall>e \<in> set scanned. Key e \<notin> fdKey ` set file_entries \<longrightarrow>
           ProcessFileInfo e \<in> set newFiles"
proof -
  let ?B = "foldl (AddString cfg) {} (map fdKey file_entries)"
  let ?pos = "\<lambda>item. TestString cfg ?B (Key item)"
  let ?temp = "map ProcessFileInfo (filter ?pos scanned)"
  from assms have
    new: "newFiles = map ProcessFileInfo (filter (\<lambda>item. \<not> ?pos item) scanned) @
                     QueryExactNewFiles ?temp file_entries" and
    chg: "changedFiles = QueryChangedFiles ?temp file_entries"
    by (auto simp: ProcessFilesForIncrementalScan_def bloomPreFilter_def Let_def
             loadCandidatesToTemp_rows split: if_splits)
  show "set newFiles \<union> set changedFiles \<subseteq> ProcessFileInfo ` set scanned"
    unfolding new chg
    by (auto simp: QueryExactNewFiles_def QueryChangedFiles_def)
  show "\<forall>r \<in> set newFiles. fdKey r \<notin> fdKey ` set file_entries"
  proof
    fix r assume "r \<in> set newFiles"
    then consider e where "e \<in> set scanned" "\<not> ?pos e" "r = ProcessFileInfo e"
      | "r \<in> set (QueryExactNewFiles ?temp file_entries)"
      unfolding new by auto
    then show "fdKey r \<notin> fdKey ` set file_entries"
    proof cases
      case 1
      then show ?thesis
        using bloom_no_false_negative [of "Key e" "map fdKey file_entries" cfg]
        by (auto simp: Key_ProcessFileInfo)
    next
      case 2
      then show ?thesis
        by (auto simp: QueryExactNewFiles_def list_ex_iff)
    qed
  qed
  show "\<forall>r \<in> set changedFiles. \<exists>f \<in> set file_entries.
           fdKey f = fdKey r \<and> (fdCTime r \<noteq> fdCTime f \<or> fdMTime r \<noteq> fdMTime f)"
    unfolding chg by (auto simp: QueryChangedFiles_def)
  show "\<forall>e \<in> set scanned. Key e \<notin> fdKey ` set file_entries \<longrightarrow>
           ProcessFileInfo e \<in> set newFiles"
  proof (intro ballI impI)
    fix e assume e: "e \<in> set scanned" and k: "Key e \<notin> fdKey ` set file_entries"
    show "ProcessFileInfo e \<in> set newFiles"
    proof (cases "?pos e")
      case False
      with e show ?thesis unfolding new by auto
    next
      case True
      with e have "ProcessFileInfo e \<in> set ?temp" by auto
      with k have "ProcessFileInfo e \<in> set (QueryExactNewFiles ?temp file_entries)"
        by (auto simp: QueryExactNewFiles_def list_ex_iff Key_ProcessFileInfo)
      then show ?thesis unfolding new by simp
    qed
  qed
qed

lemma incremental_result:
  assumes "bitset = foldl (AddString cfg) {} (map fdKey file_entries)"
    and "length (filter (\<lambda>item. TestString cfg bitset (Key item)) scanned) \<le> 100000"
  shows "ProcessFilesForIncrementalScan DBBatchSize cfg scanned file_entries =
     Some (map ProcessFileInfo (filter (\<lambda>item. \<not> TestString cfg bitset (Key item)) scanned) @
             QueryExactNewFiles
               (map ProcessFileInfo (filter (\<lambda>item. TestString cfg bitset (Key item)) scanned))
               file_entries,
           QueryChangedFiles
             (map ProcessFileInfo (filter (\<lambda>item. TestString cfg bitset (Key item)) scanned))
             file_entries)"
  using assms
  by (simp add: ProcessFilesForIncrementalScan_def bloomPreFilter_def Let_def
      candidateChan_capacity_def loadCandidatesToTemp_rows)

lemma tiny_bitset:
  "foldl (AddString tiny_bloom) {} (map fdKey [ProcessFileInfo (regular_file ''/a'' 1 0)]) = {0}"
  by (simp add: AddString_def locations_def tiny_bloom_def Key_ProcessFileInfo regular_file_def)

lemma tiny_tests:
  "TestString tiny_bloom {0} ''/a''" "TestString tiny_bloom {0} ''/c''"
  "\<not> TestString tiny_bloom {0} ''/dd''"
  by (simp_all add: TestString_def locations_def tiny_bloom_def)

lemma incremental_example:
  "ProcessFilesForIncrementalScan 2 tiny_bloom
     [regular_file ''/a'' 1 7, regular_file ''/c'' 1 7, regular_file ''/dd'' 1 7]
     [ProcessFileInfo (regular_file ''/a'' 1 0)] =
   Some ([ProcessFileInfo (regular_file ''/dd'' 1 7), ProcessFileInfo (regular_file ''/c'' 1 7)],
         [ProcessFileInfo (regular_file ''/a'' 1 7)])"
proof -
  have k: "Key (regular_file p s t) = p" for p s t
    by (simp add: regular_file_def)
  have c: "fdCTime (ProcessFileInfo (regular_file p s t)) = t" for p s t
    by (simp add: ProcessFileInfo_def regular_file_def)
  have m: "fdMTime (ProcessFileInfo (regular_file p s t)) = t" for p s t
    by (simp add: ProcessFileInfo_def regular_file_def)
  show ?thesis
    by (subst incremental_result [OF tiny_bitset [symmetric]])
       (simp_all add: k c m tiny_tests QueryExactNewFiles_def QueryChangedFiles_def
          Key_ProcessFileInfo)
qed

text \<open>
  As long as the candidates fit into the buffer of \<open>candidateChan\<close>, the engine
  returns, and its two outputs are related to the scan and to \<open>file_entries\<close> as the
  specification asks.
\<close>

lemma incremental_correct_within_capacity:
  assumes "length (filter (\<lambda>item. TestString cfg (foldl (AddString cfg) {} (map fdKey file_entries))
                             (Key item)) scanned) \<le> 100000"
  shows "\<exists>newFiles changedFiles.
           ProcessFilesForIncrementalScan DBBatchSize cfg scanned file_entries =
             Some (newFiles, changedFiles) \<and>
           set newFiles \<union> set changedFiles \<subseteq> ProcessFileInfo ` set scanned \<and>
           (\<forall>r \<in> set newFiles. fdKey r \<notin> fdKey ` set file_entries) \<and>
           (\<forall>r \<in> set changedFiles. \<exists>f \<in> set file_entries.
              fdKey f = fdKey r \<and> (fdCTime r \<noteq> fdCTime f \<or> fdMTime r \<noteq> fdMTime f)) \<and>
           (\<forall>e \<in> set scanned. Key e \<notin> fdKey ` set file_entries \<longrightarrow>
              ProcessFileInfo e \<in> set newFiles)"
proof -
  from incremental_returns [OF assms] obtain newFiles changedFiles where
    r: "ProcessFilesForIncrementalScan DBBatchSize cfg scanned file_entries =
          Some (newFiles, changedFiles)"
    by fastforce
  from incremental_outputs [OF r] r show ?thesis
    by blast
qed

lemma filter_replicate_length:
  "P x \<Longrightarrow> n \<le> length (filter P (replicate n x @ ys))"
  by (induction n) simp_all

lemma incremental_blocks_replicate:
  assumes "Key old \<in> fdKey ` set file_entries" and "100000 < n"
  shows "ProcessFilesForIncrementalScan DBBatchSize cfg (replicate n old @ rest) file_entries = None"
proof -
  have "n \<le> length (filter (\<lambda>item. Key item \<in> fdKey ` set file_entries)
                      (replicate n old @ rest))"
    using assms(1) by (rule filter_replicate_length)
  with assms(2) have "100000 < length (filter (\<lambda>item. Key item \<in> fdKey ` set file_entries)
                      (replicate n old @ rest))"
    by (rule less_le_trans)
  then show ?thesis by (rule incremental_blocks)
qed

lemma old_key_present:
  "Key (regular_file ''/a/f1'' 100 0) \<in> fdKey ` set [ProcessFileInfo (regular_file ''/a/f1'' 100 0)]"
  by (simp add: Key_ProcessFileInfo)

lemma new_key_absent:
  "Key (regular_file ''/a/f3'' 1 0) \<notin> fdKey ` set [ProcessFileInfo (regular_file ''/a/f1'' 100 0)]"
  by (simp add: Key_ProcessFileInfo regular_file_def)

lemma over_capacity: "(100000::nat) < 100001"
  by simp

text \<open>
  C1 (the code departs from the claim): the prior catalog holds \<open>/a/f1\<close>; the scan
  delivers 100001 entries with that path and then the new file \<open>/a/f3\<close>.  All
  100001 pass the bloom test, \<open>candidateChan\<close> holds 100000, and \<open>bloomPreFilter\<close>
  never returns: the engine produces no output, and the new file is not reported.
\<close>

theorem incremental_scan_blocks:
  "Key (regular_file ''/a/f3'' 1 0) \<notin> fdKey ` set [ProcessFileInfo (regular_file ''/a/f1'' 100 0)] \<and>
   ProcessFilesForIncrementalScan 1000 small_bloom
     (replicate 100001 (regular_file ''/a/f1'' 100 0) @ [regular_file ''/a/f3'' 1 0])
     [ProcessFileInfo (regular_file ''/a/f1'' 100 0)] = None"
  using new_key_absent incremental_blocks_replicate [OF old_key_present over_capacity]
  by (rule conjI)

end
